theory Spec2Isabelle
  imports Complex_Main "HOL-Library.Word"
begin

unbundle bit_operations_syntax

section \<open>Conventions of the embedding\<close>

text \<open>
  The repository is Python. Its \<open>float\<close> quantities (the six engineering values, the
  rates, the update interval) are embedded as \<^typ>\<open>real\<close> with exact arithmetic, its
  unbounded integers as \<^typ>\<open>int\<close>, its strings as \<^typ>\<open>string\<close>. A raised exception
  is the left injection of a sum. \<open>datetime\<close> instants are natural numbers handed in
  by the caller in place of \<open>datetime.now()\<close>; values drawn by \<open>random.uniform\<close> are
  handed in as well.
\<close>

datatype error = ValueError | KeyError | ZeroDivisionError | ValidationError

type_synonym datetime = nat

section \<open>utils/data\_models.py\<close>

text \<open>
  Both models carry a field called \<open>timestamp\<close>; the one of the message is named
  \<open>msg_timestamp\<close> here, since two records of one theory cannot share a field name.
\<close>

record ARINC429Message =
  label :: string
  sdi :: string
  data :: string
  ssm :: string
  parity :: string
  msg_timestamp :: datetime

record FlightData =
  latitude :: real
  longitude :: real
  altitude :: real
  airspeed :: real
  heading :: real
  vertical_speed :: real
  timestamp :: datetime

record ExternalConfig =
  url :: string
  interval :: int
  enabled :: bool
  headers :: "(string \<times> string) list"

section \<open>Python built-ins used by the codec\<close>

text \<open>\<open>int(x)\<close> on a float truncates towards zero.\<close>

definition py_int :: "real \<Rightarrow> int" where
  "py_int x = (if 0 \<le> x then \<lfloor>x\<rfloor> else \<lceil>x\<rceil>)"

text \<open>The binary digits of a natural number, most significant first (\<open>0\<close> is \<open>''0''\<close>).\<close>

fun bin_digits :: "nat \<Rightarrow> string" where
  "bin_digits n =
     (if n < 2 then [if n = 0 then CHR ''0'' else CHR ''1'']
      else bin_digits (n div 2) @ [if n mod 2 = 0 then CHR ''0'' else CHR ''1''])"

declare bin_digits.simps [simp del]

text \<open>\<open>bin(n)\<close>: sign, the prefix \<open>0b\<close>, the digits.\<close>

definition py_bin :: "int \<Rightarrow> string" where
  "py_bin n = (if n < 0 then ''-0b'' @ bin_digits (nat (- n)) else ''0b'' @ bin_digits (nat n))"

text \<open>
  \<open>format(n, '0<w>b')\<close>: the digits padded with zeros on the left to width \<open>w\<close>, the
  sign (counted in the width) in front of the padding; never truncated.
\<close>

definition zfill :: "nat \<Rightarrow> string \<Rightarrow> string" where
  "zfill w s = replicate (w - length s) CHR ''0'' @ s"

definition format_b :: "nat \<Rightarrow> int \<Rightarrow> string" where
  "format_b w n =
     (if n < 0 then CHR ''-'' # zfill (w - 1) (bin_digits (nat (- n)))
      else zfill w (bin_digits (nat n)))"

text \<open>\<open>s.count('1')\<close> for the one-character pattern.\<close>

definition count_ones :: "string \<Rightarrow> nat" where
  "count_ones s = count_list s CHR ''1''"

text \<open>
  \<open>int(s, 2)\<close> and \<open>int(s, 16)\<close> on a non-empty string of digits of the base; every
  other string is \<open>ValueError\<close> here. (Python also accepts surrounding white space, a
  sign, a base prefix and single underscores between digits; the encoder never
  writes any of them.)
\<close>

definition bin_val :: "char \<Rightarrow> nat option" where
  "bin_val c = (if c = CHR ''0'' then Some 0 else if c = CHR ''1'' then Some 1 else None)"

definition hex_val :: "char \<Rightarrow> nat option" where
  "hex_val c =
     (let k = of_char c :: nat in
      if 48 \<le> k \<and> k \<le> 57 then Some (k - 48)
      else if 65 \<le> k \<and> k \<le> 70 then Some (k - 55)
      else if 97 \<le> k \<and> k \<le> 102 then Some (k - 87)
      else None)"

fun digits_val :: "(char \<Rightarrow> nat option) \<Rightarrow> nat \<Rightarrow> nat \<Rightarrow> string \<Rightarrow> nat option" where
  "digits_val dv b acc [] = Some acc"
| "digits_val dv b acc (c # cs) =
     (case dv c of None \<Rightarrow> None | Some d \<Rightarrow> digits_val dv b (acc * b + d) cs)"

definition int_base2 :: "string \<Rightarrow> error + int" where
  "int_base2 s =
     (if s = [] then Inl ValueError
      else case digits_val bin_val 2 0 s of None \<Rightarrow> Inl ValueError | Some n \<Rightarrow> Inr (int n))"

definition int_base16 :: "string \<Rightarrow> error + int" where
  "int_base16 s =
     (if s = [] then Inl ValueError
      else case digits_val hex_val 16 0 s of None \<Rightarrow> Inl ValueError | Some n \<Rightarrow> Inr (int n))"

section \<open>utils/arinc429.py: the encoder\<close>

text \<open>The encoder object: its two attributes \<open>self.sdi\<close> and \<open>self.ssm\<close>.\<close>

record ARINC429Encoder =
  self_sdi :: string
  self_ssm :: string

definition ARINC429Encoder_init :: ARINC429Encoder where
  "ARINC429Encoder_init = \<lparr>self_sdi = ''00'', self_ssm = ''00''\<rparr>"

definition LABELS :: "(string \<times> string) list" where
  "LABELS =
     [(''latitude'', ''6A''), (''longitude'', ''6B''), (''altitude'', ''6C''),
      (''airspeed'', ''6D''), (''heading'', ''6E''), (''vertical_speed'', ''6F'')]"

text \<open>
  Each field encoder returns the 19-character data string and the encoder with
  \<open>self.ssm\<close> assigned; a value outside the range raises before anything is assigned.
\<close>

definition encode_latitude :: "ARINC429Encoder \<Rightarrow> real \<Rightarrow> error + string \<times> ARINC429Encoder" where
  "encode_latitude self latitude_v =
     (if latitude_v < - 90 \<or> latitude_v > 90 then Inl ValueError
      else
        let (self', data_value) =
              (if latitude_v \<ge> 0
               then (self\<lparr>self_ssm := ''00''\<rparr>, py_int (\<bar>latitude_v\<bar> * 10000))
               else (self\<lparr>self_ssm := ''11''\<rparr>, py_int (\<bar>latitude_v\<bar> * 10000)))
        in Inr (format_b 19 (data_value AND 0x7FFFF), self'))"

definition encode_longitude :: "ARINC429Encoder \<Rightarrow> real \<Rightarrow> error + string \<times> ARINC429Encoder" where
  "encode_longitude self longitude_v =
     (if longitude_v < - 180 \<or> longitude_v > 180 then Inl ValueError
      else
        let (self', data_value) =
              (if longitude_v \<ge> 0
               then (self\<lparr>self_ssm := ''00''\<rparr>, py_int (\<bar>longitude_v\<bar> * 10000))
               else (self\<lparr>self_ssm := ''11''\<rparr>, py_int (\<bar>longitude_v\<bar> * 10000)))
        in Inr (format_b 19 (data_value AND 0x7FFFF), self'))"

definition encode_altitude :: "ARINC429Encoder \<Rightarrow> real \<Rightarrow> error + string \<times> ARINC429Encoder" where
  "encode_altitude self altitude_v =
     (if altitude_v < 0 \<or> altitude_v > 50000 then Inl ValueError
      else
        let self' = self\<lparr>self_ssm := ''00''\<rparr>;
            data_value = py_int altitude_v
        in Inr (format_b 19 (data_value AND 0x7FFFF), self'))"

definition encode_airspeed :: "ARINC429Encoder \<Rightarrow> real \<Rightarrow> error + string \<times> ARINC429Encoder" where
  "encode_airspeed self airspeed_v =
     (if airspeed_v < 0 \<or> airspeed_v > 1000 then Inl ValueError
      else
        let self' = self\<lparr>self_ssm := ''00''\<rparr>;
            data_value = py_int (airspeed_v * 10)
        in Inr (format_b 19 (data_value AND 0x7FFFF), self'))"

definition encode_heading :: "ARINC429Encoder \<Rightarrow> real \<Rightarrow> error + string \<times> ARINC429Encoder" where
  "encode_heading self heading_v =
     (if heading_v < 0 \<or> heading_v > 360 then Inl ValueError
      else
        let self' = self\<lparr>self_ssm := ''00''\<rparr>;
            data_value = py_int (heading_v * 10)
        in Inr (format_b 19 (data_value AND 0x7FFFF), self'))"

definition encode_vertical_speed :: "ARINC429Encoder \<Rightarrow> real \<Rightarrow> error + string \<times> ARINC429Encoder" where
  "encode_vertical_speed self vertical_speed_v =
     (if vertical_speed_v < - 10000 \<or> vertical_speed_v > 10000 then Inl ValueError
      else
        let (self', data_value) =
              (if vertical_speed_v \<ge> 0
               then (self\<lparr>self_ssm := ''00''\<rparr>, py_int \<bar>vertical_speed_v\<bar>)
               else (self\<lparr>self_ssm := ''11''\<rparr>, py_int \<bar>vertical_speed_v\<bar>))
        in Inr (format_b 19 (data_value AND 0x7FFFF), self'))"

text \<open>
  \<open>calculate_parity\<close>: the four fields are parsed, shifted to bits 24, 22, 3 and 1 and
  joined by \<open>|\<close>; the parity character is \<open>'1'\<close> when \<open>bin(word)\<close> holds an even number
  of \<open>'1'\<close>. A field that does not parse raises.
\<close>

definition calculate_parity :: "string \<Rightarrow> string \<Rightarrow> string \<Rightarrow> string \<Rightarrow> error + string" where
  "calculate_parity label_s sdi_s data_s ssm_s =
     (case int_base16 label_s of Inl e \<Rightarrow> Inl e | Inr l \<Rightarrow>
     (case int_base2 sdi_s of Inl e \<Rightarrow> Inl e | Inr s \<Rightarrow>
     (case int_base2 data_s of Inl e \<Rightarrow> Inl e | Inr d \<Rightarrow>
     (case int_base2 ssm_s of Inl e \<Rightarrow> Inl e | Inr m \<Rightarrow>
        (let word = push_bit 24 l OR push_bit 22 s OR push_bit 3 d OR push_bit 1 m;
             bit_count = count_ones (py_bin word)
         in Inr (if bit_count mod 2 = 0 then ''1'' else ''0''))))))"

text \<open>
  One pass of the loop of \<open>encode_flight_data\<close>: the body of the \<open>try\<close>. Any
  exception leaves the message out; the encoder keeps what was assigned before the
  exception.
\<close>

type_synonym encoder_func = "ARINC429Encoder \<Rightarrow> real \<Rightarrow> error + string \<times> ARINC429Encoder"

definition encode_field ::
  "datetime \<Rightarrow> ARINC429Encoder \<Rightarrow> string \<times> real \<times> encoder_func \<Rightarrow>
     ARINC429Message option \<times> ARINC429Encoder" where
  "encode_field ts self enc =
     (case enc of (data_type, v, encoder_func) \<Rightarrow>
     (case encoder_func self v of
        Inl e \<Rightarrow> (None, self)
      | Inr (data_binary, self') \<Rightarrow>
          (case map_of LABELS data_type of
             None \<Rightarrow> (None, self')
           | Some label_s \<Rightarrow>
               (case calculate_parity label_s (self_sdi self') data_binary (self_ssm self') of
                  Inl e \<Rightarrow> (None, self')
                | Inr parity_s \<Rightarrow>
                    (Some \<lparr>label = label_s, sdi = self_sdi self', data = data_binary,
                           ssm = self_ssm self', parity = parity_s, msg_timestamp = ts\<rparr>,
                     self')))))"

definition encodings :: "FlightData \<Rightarrow> (string \<times> real \<times> encoder_func) list" where
  "encodings flight_data =
     [(''latitude'', latitude flight_data, encode_latitude),
      (''longitude'', longitude flight_data, encode_longitude),
      (''altitude'', altitude flight_data, encode_altitude),
      (''airspeed'', airspeed flight_data, encode_airspeed),
      (''heading'', heading flight_data, encode_heading),
      (''vertical_speed'', vertical_speed flight_data, encode_vertical_speed)]"

fun encode_loop ::
  "datetime \<Rightarrow> ARINC429Encoder \<Rightarrow> ARINC429Message list \<Rightarrow> (string \<times> real \<times> encoder_func) list \<Rightarrow>
     ARINC429Message list \<times> ARINC429Encoder" where
  "encode_loop ts self messages [] = (messages, self)"
| "encode_loop ts self messages (enc # rest) =
     (case encode_field ts self enc of
        (None, self') \<Rightarrow> encode_loop ts self' messages rest
      | (Some message, self') \<Rightarrow> encode_loop ts self' (messages @ [message]) rest)"

definition encode_flight_data ::
  "ARINC429Encoder \<Rightarrow> FlightData \<Rightarrow> ARINC429Message list \<times> ARINC429Encoder" where
  "encode_flight_data self flight_data =
     encode_loop (timestamp flight_data) self [] (encodings flight_data)"

section \<open>utils/arinc429.py: the decoder\<close>

definition decode_latitude :: "string \<Rightarrow> string \<Rightarrow> error + real" where
  "decode_latitude data_s ssm_s =
     (case int_base2 data_s of Inl e \<Rightarrow> Inl e | Inr data_value \<Rightarrow>
        let latitude_v = real_of_int data_value / 10000
        in Inr (if ssm_s = ''11'' then - latitude_v else latitude_v))"

definition decode_longitude :: "string \<Rightarrow> string \<Rightarrow> error + real" where
  "decode_longitude data_s ssm_s =
     (case int_base2 data_s of Inl e \<Rightarrow> Inl e | Inr data_value \<Rightarrow>
        let longitude_v = real_of_int data_value / 10000
        in Inr (if ssm_s = ''11'' then - longitude_v else longitude_v))"

definition decode_altitude :: "string \<Rightarrow> string \<Rightarrow> error + real" where
  "decode_altitude data_s ssm_s =
     (case int_base2 data_s of Inl e \<Rightarrow> Inl e | Inr data_value \<Rightarrow> Inr (real_of_int data_value))"

definition decode_airspeed :: "string \<Rightarrow> string \<Rightarrow> error + real" where
  "decode_airspeed data_s ssm_s =
     (case int_base2 data_s of Inl e \<Rightarrow> Inl e | Inr data_value \<Rightarrow>
        Inr (real_of_int data_value / 10))"

definition decode_heading :: "string \<Rightarrow> string \<Rightarrow> error + real" where
  "decode_heading data_s ssm_s =
     (case int_base2 data_s of Inl e \<Rightarrow> Inl e | Inr data_value \<Rightarrow>
        Inr (real_of_int data_value / 10))"

definition decode_vertical_speed :: "string \<Rightarrow> string \<Rightarrow> error + real" where
  "decode_vertical_speed data_s ssm_s =
     (case int_base2 data_s of Inl e \<Rightarrow> Inl e | Inr data_value \<Rightarrow>
        let vertical_speed_v = real_of_int data_value
        in Inr (if ssm_s = ''11'' then - vertical_speed_v else vertical_speed_v))"

definition decoders :: "(string \<times> string \<times> (string \<Rightarrow> string \<Rightarrow> error + real)) list" where
  "decoders =
     [(''6A'', ''latitude'', decode_latitude),
      (''6B'', ''longitude'', decode_longitude),
      (''6C'', ''altitude'', decode_altitude),
      (''6D'', ''airspeed'', decode_airspeed),
      (''6E'', ''heading'', decode_heading),
      (''6F'', ''vertical_speed'', decode_vertical_speed)]"

definition decode_message :: "ARINC429Message \<Rightarrow> error + string \<times> real" where
  "decode_message message =
     (case map_of decoders (label message) of
        Some (data_type, decoder_func) \<Rightarrow>
          (case decoder_func (data message) (ssm message) of
             Inl e \<Rightarrow> Inl e
           | Inr v \<Rightarrow> Inr (data_type, v))
      | None \<Rightarrow> Inl ValueError)"

text \<open>
  \<open>create_arinc429_word\<close> formats its label with \<open>08b\<close>, which Python accepts for an
  integer only: the label is an integer here.
\<close>

definition create_arinc429_word :: "int \<Rightarrow> string \<Rightarrow> string \<Rightarrow> string \<Rightarrow> string \<Rightarrow> string" where
  "create_arinc429_word label_n sdi_s data_s ssm_s parity_s =
     format_b 8 label_n @ sdi_s @ data_s @ ssm_s @ parity_s"

definition validate_arinc429_word :: "string \<Rightarrow> bool" where
  "validate_arinc429_word word =
     (if length word \<noteq> 32 then False else count_ones word mod 2 = 1)"

text \<open>
  The 31 characters \<open>label(8) || sdi(2) || data(19) || ssm(2)\<close> over which the
  specification defines the parity, the label written as eight binary digits.
\<close>

definition word31 :: "int \<Rightarrow> ARINC429Message \<Rightarrow> string" where
  "word31 l m = format_b 8 l @ sdi m @ data m @ ssm m"

text \<open>The words one field contributes to the result of \<open>encode_flight_data\<close>: one or none.\<close>

definition field_words ::
  "datetime \<Rightarrow> ARINC429Encoder \<Rightarrow> string \<times> real \<times> encoder_func \<Rightarrow> ARINC429Message list" where
  "field_words ts self enc = (case fst (encode_field ts self enc) of None \<Rightarrow> [] | Some m \<Rightarrow> [m])"

text \<open>
  The word the specification describes for one field: the label, sdi \<open>"00"\<close>, the
  magnitude of the value times the scale, cut to an integer and to its low 19 bits,
  written in 19 binary digits, ssm \<open>"11"\<close> for a negative value of a signed field and
  \<open>"00"\<close> otherwise, the parity \<open>"1"\<close> when the eight label bits, the sdi, the data
  and the ssm hold an even number of ones, and the timestamp of the sample.
\<close>

definition spec_word :: "string \<Rightarrow> nat \<Rightarrow> nat \<Rightarrow> bool \<Rightarrow> real \<Rightarrow> datetime \<Rightarrow> ARINC429Message" where
  "spec_word label_hex label_code scale has_sign v ts =
     (let data_s = zfill 19 (bin_digits (nat (\<lfloor>\<bar>v\<bar> * real scale\<rfloor> mod 2 ^ 19)));
          ssm_s = (if has_sign \<and> v < 0 then ''11'' else ''00'');
          bits31 = zfill 8 (bin_digits label_code) @ ''00'' @ data_s @ ssm_s
      in \<lparr>label = label_hex, sdi = ''00'', data = data_s, ssm = ssm_s,
          parity = (if even (count_ones bits31) then ''1'' else ''0''),
          msg_timestamp = ts\<rparr>)"

section \<open>config.py\<close>

text \<open>
  \<open>AVIATION_RANGES\<close> has six keys and the generator reads it by literal keys only: it
  is a total function on the keys, giving \<open>(min, max)\<close>.
\<close>

datatype range_key =
  K_latitude | K_longitude | K_altitude | K_airspeed | K_heading | K_vertical_speed

fun AVIATION_RANGES :: "range_key \<Rightarrow> real \<times> real" where
  "AVIATION_RANGES K_latitude = (- 90, 90)"
| "AVIATION_RANGES K_longitude = (- 180, 180)"
| "AVIATION_RANGES K_altitude = (0, 50000)"
| "AVIATION_RANGES K_airspeed = (0, 1000)"
| "AVIATION_RANGES K_heading = (0, 360)"
| "AVIATION_RANGES K_vertical_speed = (- 10000, 10000)"

section \<open>data\_generator.py\<close>

text \<open>
  The constructor of the pydantic model \<open>FlightData\<close> checks the \<open>ge\<close>/\<open>le\<close> bounds of
  its fields and raises otherwise.
\<close>

definition FlightData_new ::
  "real \<Rightarrow> real \<Rightarrow> real \<Rightarrow> real \<Rightarrow> real \<Rightarrow> real \<Rightarrow> datetime \<Rightarrow> error + FlightData" where
  "FlightData_new lat lon alt spd hdg vs ts =
     (if - 90 \<le> lat \<and> lat \<le> 90 \<and> - 180 \<le> lon \<and> lon \<le> 180 \<and> 0 \<le> alt \<and> alt \<le> 50000 \<and>
         0 \<le> spd \<and> spd \<le> 1000 \<and> 0 \<le> hdg \<and> hdg \<le> 360 \<and> - 10000 \<le> vs \<and> vs \<le> 10000
      then Inr \<lparr>latitude = lat, longitude = lon, altitude = alt, airspeed = spd, heading = hdg,
                vertical_speed = vs, timestamp = ts\<rparr>
      else Inl ValidationError)"

text \<open>
  \<open>round(x, ndigits)\<close>: the nearest multiple of \<open>10 ^ (- ndigits)\<close>, a tie going to the
  even one.
\<close>

definition round_half_even :: "real \<Rightarrow> int" where
  "round_half_even y =
     (let f = \<lfloor>y\<rfloor>; d = y - of_int f
      in if d < 1 / 2 then f else if d > 1 / 2 then f + 1 else if even f then f else f + 1)"

definition py_round :: "real \<Rightarrow> nat \<Rightarrow> real" where
  "py_round x ndigits = of_int (round_half_even (x * 10 ^ ndigits)) / 10 ^ ndigits"

definition radians :: "real \<Rightarrow> real" where
  "radians x = x * pi / 180"

record FlightDataGenerator =
  update_interval :: real
  encoder :: ARINC429Encoder
  current_data :: "FlightData option"
  history :: "FlightData list"
  max_history :: int
  current_latitude :: real
  current_longitude :: real
  current_altitude :: real
  current_airspeed :: real
  current_heading :: real
  current_vertical_speed :: real
  heading_change_rate :: real
  altitude_change_rate :: real
  speed_change_rate :: real

text \<open>
  \<open>__init__\<close> with \<open>_generate_initial_data\<close>: the first sample is built from the start
  position and appended to the empty history.
\<close>

definition FlightDataGenerator_init :: "real \<Rightarrow> datetime \<Rightarrow> FlightDataGenerator" where
  "FlightDataGenerator_init interval_v now =
     (let d0 = \<lparr>latitude = 41.2622, longitude = 28.7278, altitude = 35000, airspeed = 450,
                 heading = 270, vertical_speed = 0, timestamp = now\<rparr>
      in \<lparr>update_interval = interval_v, encoder = ARINC429Encoder_init,
          current_data = Some d0, history = [d0], max_history = 1000,
          current_latitude = 41.2622, current_longitude = 28.7278, current_altitude = 35000,
          current_airspeed = 450, current_heading = 270, current_vertical_speed = 0,
          heading_change_rate = 0, altitude_change_rate = 0, speed_change_rate = 0\<rparr>)"

definition clamp :: "range_key \<Rightarrow> real \<Rightarrow> real" where
  "clamp k x = max (fst (AVIATION_RANGES k)) (min (snd (AVIATION_RANGES k)) x)"

definition apply_boundaries :: "FlightDataGenerator \<Rightarrow> FlightDataGenerator" where
  "apply_boundaries self =
     self\<lparr>current_latitude := clamp K_latitude (current_latitude self),
          current_longitude := clamp K_longitude (current_longitude self),
          current_altitude := clamp K_altitude (current_altitude self),
          current_airspeed := clamp K_airspeed (current_airspeed self),
          current_heading := clamp K_heading (current_heading self),
          current_vertical_speed := clamp K_vertical_speed (current_vertical_speed self)\<rparr>"

text \<open>
  \<open>_update_position\<close>. The longitude step divides by \<open>111320 * cos(radians(latitude))\<close>;
  a zero divisor raises after the latitude has been assigned.
\<close>

definition update_position :: "FlightDataGenerator \<Rightarrow> (error + unit) \<times> FlightDataGenerator" where
  "update_position self =
     (let speed_ms = current_airspeed self * 0.514444;
          dt = update_interval self;
          heading_rad = radians (current_heading self);
          distance = speed_ms * dt;
          lat_change = (distance * cos heading_rad) / 111320;
          self1 = self\<lparr>current_latitude := current_latitude self + lat_change\<rparr>;
          divisor = 111320 * cos (radians (current_latitude self1))
      in if divisor = 0 then (Inl ZeroDivisionError, self1)
         else
           let lon_change = (distance * sin heading_rad) / divisor;
               self2 = self1\<lparr>current_longitude := current_longitude self1 + lon_change\<rparr>;
               h = current_heading self2 + heading_change_rate self2 * dt;
               self3 = self2\<lparr>current_heading :=
                         (if h \<ge> 360 then h - 360 else if h < 0 then h + 360 else h)\<rparr>;
               self4 = self3\<lparr>current_altitude :=
                         current_altitude self3 + (current_vertical_speed self3 / 60) * dt\<rparr>;
               self5 = self4\<lparr>current_airspeed :=
                         current_airspeed self4 + speed_change_rate self4 * dt\<rparr>
           in (Inr (), apply_boundaries self5))"

text \<open>The nine values \<open>random.uniform\<close> returns in \<open>_add_realistic_variations\<close>, in call order.\<close>

record variations =
  var_latitude :: real
  var_longitude :: real
  var_altitude :: real
  var_airspeed :: real
  var_heading :: real
  var_vertical_speed :: real
  new_heading_change_rate :: real
  new_altitude_change_rate :: real
  new_speed_change_rate :: real

definition add_realistic_variations :: "variations \<Rightarrow> FlightDataGenerator \<Rightarrow> FlightDataGenerator" where
  "add_realistic_variations u self =
     (let self1 = self\<lparr>current_latitude := current_latitude self + var_latitude u,
                       current_longitude := current_longitude self + var_longitude u,
                       current_altitude := current_altitude self + var_altitude u,
                       current_airspeed := current_airspeed self + var_airspeed u,
                       current_heading := current_heading self + var_heading u,
                       current_vertical_speed := current_vertical_speed self + var_vertical_speed u\<rparr>;
          self2 = self1\<lparr>heading_change_rate := new_heading_change_rate u,
                        altitude_change_rate := new_altitude_change_rate u,
                        speed_change_rate := new_speed_change_rate u\<rparr>
      in self2\<lparr>current_vertical_speed := altitude_change_rate self2\<rparr>)"

definition generate_flight_data ::
  "variations \<Rightarrow> datetime \<Rightarrow> FlightDataGenerator \<Rightarrow> (error + FlightData) \<times> FlightDataGenerator" where
  "generate_flight_data u now self =
     (case update_position self of
        (Inl e, self1) \<Rightarrow> (Inl e, self1)
      | (Inr _, self1) \<Rightarrow>
          (let self2 = apply_boundaries (add_realistic_variations u self1)
           in case FlightData_new
                 (py_round (current_latitude self2) 6)
                 (py_round (current_longitude self2) 6)
                 (py_round (current_altitude self2) 1)
                 (py_round (current_airspeed self2) 1)
                 (py_round (current_heading self2) 1)
                 (py_round (current_vertical_speed self2) 1)
                 now of
               Inl e \<Rightarrow> (Inl e, self2)
             | Inr new_data \<Rightarrow>
                 let self3 = self2\<lparr>history := history self2 @ [new_data],
                                   current_data := Some new_data\<rparr>;
                     self4 = (if int (length (history self3)) > max_history self3
                              then self3\<lparr>history := tl (history self3)\<rparr> else self3)
                 in (Inr new_data, self4)))"

text \<open>
  A slice \<open>xs[start:]\<close>: a negative start counts from the end, and every start is cut
  to the bounds of the list.
\<close>

definition slice_from :: "int \<Rightarrow> 'a list \<Rightarrow> 'a list" where
  "slice_from start xs =
     (let n = int (length xs);
          i = (if start < 0 then max (n + start) 0 else min start n)
      in drop (nat i) xs)"

definition get_history :: "FlightDataGenerator \<Rightarrow> int option \<Rightarrow> FlightData list" where
  "get_history self limit =
     (case limit of None \<Rightarrow> history self | Some l \<Rightarrow> slice_from (- l) (history self))"

definition reset_position :: "real \<Rightarrow> real \<Rightarrow> FlightDataGenerator \<Rightarrow> FlightDataGenerator" where
  "reset_position lat lon self =
     self\<lparr>current_latitude := lat, current_longitude := lon, current_altitude := 35000,
          current_airspeed := 450, current_heading := 270, current_vertical_speed := 0\<rparr>"

definition set_flight_parameters ::
  "real \<Rightarrow> real \<Rightarrow> real \<Rightarrow> FlightDataGenerator \<Rightarrow> FlightDataGenerator" where
  "set_flight_parameters heading_change altitude_change speed_change self =
     self\<lparr>heading_change_rate := heading_change, altitude_change_rate := altitude_change,
          speed_change_rate := speed_change\<rparr>"

text \<open>
  A sequence of calls on one generator. The samples returned by the calls of
  \<open>generate_flight_data\<close> are collected in order; a call that raises returns none, and
  the caller goes on with the generator as the exception left it.
\<close>

datatype call =
  Generate variations datetime
| Set_flight_parameters real real real
| Reset_position real real

fun run :: "call list \<Rightarrow> FlightDataGenerator \<Rightarrow> FlightData list \<times> FlightDataGenerator" where
  "run [] self = ([], self)"
| "run (Generate u now # cs) self =
     (case generate_flight_data u now self of
        (Inl e, self') \<Rightarrow> run cs self'
      | (Inr d, self') \<Rightarrow> (case run cs self' of (ds, self'') \<Rightarrow> (d # ds, self'')))"
| "run (Set_flight_parameters h a s # cs) self = run cs (set_flight_parameters h a s self)"
| "run (Reset_position lat lon # cs) self = run cs (reset_position lat lon self)"

text \<open>The envelope as the specification words it (heading below 360) and as the code keeps it.\<close>

definition in_envelope_spec :: "FlightData \<Rightarrow> bool" where
  "in_envelope_spec d \<longleftrightarrow>
     - 90 \<le> latitude d \<and> latitude d \<le> 90 \<and> - 180 \<le> longitude d \<and> longitude d \<le> 180 \<and>
     0 \<le> altitude d \<and> altitude d \<le> 50000 \<and> 0 \<le> airspeed d \<and> airspeed d \<le> 1000 \<and>
     0 \<le> heading d \<and> heading d < 360 \<and>
     - 10000 \<le> vertical_speed d \<and> vertical_speed d \<le> 10000"

definition in_envelope :: "FlightData \<Rightarrow> bool" where
  "in_envelope d \<longleftrightarrow>
     - 90 \<le> latitude d \<and> latitude d \<le> 90 \<and> - 180 \<le> longitude d \<and> longitude d \<le> 180 \<and>
     0 \<le> altitude d \<and> altitude d \<le> 50000 \<and> 0 \<le> airspeed d \<and> airspeed d \<le> 1000 \<and>
     0 \<le> heading d \<and> heading d \<le> 360 \<and>
     - 10000 \<le> vertical_speed d \<and> vertical_speed d \<le> 10000"

section \<open>api\_server.py\<close>

text \<open>
  A \<open>WebSocket\<close> object is known by its identity. \<open>HTTPException\<close> carries a status
  code and a detail; \<open>Str e\<close> is the text \<open>str(e)\<close> of an exception, whose format
  belongs to the web framework. Texts of the source with letters outside ASCII are
  written with the nearest ASCII letters.
\<close>

type_synonym WebSocket = nat

datatype http_exception = HTTPException (status_code: nat) (detail: detail)
  and detail = Text string | Str http_exception

record ARINC429APIServer =
  data_generator :: FlightDataGenerator
  active_connections :: "WebSocket list"
  external_configs :: "ExternalConfig list"

text \<open>\<open>xs.pop(i)\<close> for an index inside the list.\<close>

definition pop :: "nat \<Rightarrow> 'a list \<Rightarrow> 'a list" where
  "pop i xs = take i xs @ drop (Suc i) xs"

text \<open>
  The handler of \<open>DELETE /api/external-config/{index}\<close>. The \<open>HTTPException\<close> of the
  \<open>else\<close> branch is raised inside the \<open>try\<close>, whose \<open>except Exception\<close> clause
  catches it and raises status 500 with its text.
\<close>

definition remove_external_config_try ::
  "int \<Rightarrow> ARINC429APIServer \<Rightarrow> (http_exception + (string \<times> string) list) \<times> ARINC429APIServer" where
  "remove_external_config_try index self =
     (if 0 \<le> index \<and> index < int (length (external_configs self))
      then (Inr [(''status'', ''success''), (''message'', ''Konfigurasyon kaldirildi'')],
            self\<lparr>external_configs := pop (nat index) (external_configs self)\<rparr>)
      else (Inl (HTTPException 404 (Text ''Konfigurasyon bulunamadi'')), self))"

definition remove_external_config ::
  "int \<Rightarrow> ARINC429APIServer \<Rightarrow> (http_exception + (string \<times> string) list) \<times> ARINC429APIServer" where
  "remove_external_config index self =
     (case remove_external_config_try index self of
        (Inl e, self') \<Rightarrow> (Inl (HTTPException 500 (Str e)), self')
      | (Inr response, self') \<Rightarrow> (Inr response, self'))"

definition disconnect_websocket :: "WebSocket \<Rightarrow> ARINC429APIServer \<Rightarrow> ARINC429APIServer" where
  "disconnect_websocket websocket self =
     (if websocket \<in> set (active_connections self)
      then self\<lparr>active_connections := remove1 websocket (active_connections self)\<rparr>
      else self)"

text \<open>
  \<open>broadcast_data\<close>. Which calls of \<open>send_text\<close> raise is given by \<open>send_fails\<close>; the
  texts that were sent are appended to \<open>sent\<close>, each with its receiver. The first
  loop fills \<open>disconnected\<close>, the second removes its members.
\<close>

fun send_loop ::
  "(WebSocket \<Rightarrow> bool) \<Rightarrow> string \<Rightarrow> WebSocket list \<Rightarrow> (WebSocket \<times> string) list \<Rightarrow> WebSocket list \<Rightarrow>
     (WebSocket \<times> string) list \<times> WebSocket list" where
  "send_loop send_fails message [] sent disconnected = (sent, disconnected)"
| "send_loop send_fails message (connection # rest) sent disconnected =
     (if send_fails connection
      then send_loop send_fails message rest sent (disconnected @ [connection])
      else send_loop send_fails message rest (sent @ [(connection, message)]) disconnected)"

definition broadcast_data ::
  "('d \<Rightarrow> string) \<Rightarrow> (WebSocket \<Rightarrow> bool) \<Rightarrow> 'd \<Rightarrow> ARINC429APIServer \<times> (WebSocket \<times> string) list \<Rightarrow>
     ARINC429APIServer \<times> (WebSocket \<times> string) list" where
  "broadcast_data json_dumps send_fails data_v st =
     (case st of (self, sent) \<Rightarrow>
       (if active_connections self = [] then (self, sent)
        else
          let message = json_dumps data_v;
              (sent', disconnected) =
                 send_loop send_fails message (active_connections self) sent []
          in (fold disconnect_websocket disconnected self, sent')))"

section \<open>Concrete inputs\<close>

text \<open>
  A sample whose latitude fills the data field with ones, whose altitude is outside
  its range and whose other fields are inside theirs.
\<close>

definition fd_all_ones :: FlightData where
  "fd_all_ones = \<lparr>latitude = 52.4287, longitude = 0, altitude = 60000, airspeed = 0.3,
      heading = 360, vertical_speed = - 3, timestamp = 7\<rparr>"

text \<open>A server with the one sink of the default configuration.\<close>

definition server1 :: ARINC429APIServer where
  "server1 = \<lparr>data_generator = FlightDataGenerator_init 1 0, active_connections = [],
     external_configs = [\<lparr>url = ''http://localhost:8080/api/flight-data'', interval = 5,
        enabled = False, headers = [(''Content-Type'', ''application/json'')]\<rparr>]\<rparr>"

text \<open>Variations that change nothing and draw zero rates.\<close>

definition zero_variations :: variations where
  "zero_variations = \<lparr>var_latitude = 0, var_longitude = 0, var_altitude = 0, var_airspeed = 0,
     var_heading = 0, var_vertical_speed = 0, new_heading_change_rate = 0,
     new_altitude_change_rate = 0, new_speed_change_rate = 0\<rparr>"

section \<open>Definitions used in the proofs\<close>

text \<open>The sample \<open>generate_flight_data\<close> builds from the state after the second clamp.\<close>

definition sample_of :: "FlightDataGenerator \<Rightarrow> datetime \<Rightarrow> FlightData" where
  "sample_of self now =
     \<lparr>latitude = py_round (current_latitude self) 6,
      longitude = py_round (current_longitude self) 6,
      altitude = py_round (current_altitude self) 1,
      airspeed = py_round (current_airspeed self) 1,
      heading = py_round (current_heading self) 1,
      vertical_speed = py_round (current_vertical_speed self) 1,
      timestamp = now\<rparr>"

text \<open>The history after a sample is appended and the oldest one evicted past the capacity.\<close>

definition push_history :: "int \<Rightarrow> FlightData list \<Rightarrow> FlightData \<Rightarrow> FlightData list" where
  "push_history cap h d = (if int (length (h @ [d])) > cap then tl (h @ [d]) else h @ [d])"


text \<open>A data string as the encoders write it: a number below \<open>2 ^ 19\<close> in 19 binary digits.\<close>

definition data19 :: "string \<Rightarrow> bool" where
  "data19 s \<longleftrightarrow> (\<exists>d. d < 2 ^ 19 \<and> s = zfill 19 (bin_digits d))"

definition parity_ok :: "ARINC429Message \<Rightarrow> bool" where
  "parity_ok m \<longleftrightarrow>
     (\<exists>l. int_base16 (label m) = Inr l \<and> length (word31 l m) = 31 \<and>
          parity m = (if even (count_ones (word31 l m)) then ''1'' else ''0''))"

definition encoder_post :: "ARINC429Encoder \<Rightarrow> string \<times> ARINC429Encoder \<Rightarrow> bool" where
  "encoder_post self r \<longleftrightarrow>
     data19 (fst r) \<and> self_sdi (snd r) = self_sdi self \<and>
     (self_ssm (snd r) = ''00'' \<or> self_ssm (snd r) = ''11'')"

text \<open>A field encoder whose result does not depend on the encoder it is called on.\<close>

definition uniform :: "encoder_func \<Rightarrow> real \<Rightarrow> bool" where
  "uniform f v \<longleftrightarrow>
     (\<exists>r. \<forall>self. f self v =
        (case r of None \<Rightarrow> Inl ValueError
         | Some (db, sm) \<Rightarrow> Inr (db, self\<lparr>self_ssm := sm\<rparr>)))"

section \<open>Binary strings and bit counts\<close>

lemma bin_digits_0: "bin_digits 0 = ''0''" by (simp add: bin_digits.simps)
lemma bin_digits_1: "bin_digits 1 = ''1''" by (subst bin_digits.simps) simp
lemma bin_digits_Suc_0: "bin_digits (Suc 0) = ''1''" by (subst bin_digits.simps) simp
lemma bin_digits_double: "0 < n \<Longrightarrow> bin_digits (2 * n) = bin_digits n @ ''0''"
  by (subst bin_digits.simps) simp
lemma bin_digits_double1: "0 < n \<Longrightarrow> bin_digits (2 * n + 1) = bin_digits n @ ''1''"
  by (subst bin_digits.simps) simp
lemma bin_digits_Bit0: "bin_digits (numeral (Num.Bit0 k)) = bin_digits (numeral k) @ ''0''"
  using bin_digits_double [of "numeral k"] by (simp add: numeral_Bit0 mult_2)
lemma bin_digits_Bit1: "bin_digits (numeral (Num.Bit1 k)) = bin_digits (numeral k) @ ''1''"
  using bin_digits_double1 [of "numeral k"] by (simp add: numeral_Bit1 mult_2)
lemma replicate_numeral: "replicate (numeral k) x = x # replicate (pred_numeral k) x"
  by (simp add: numeral_eq_Suc)
lemmas bin_digits_numeral = bin_digits_0 bin_digits_1 bin_digits_Suc_0 bin_digits_Bit0 bin_digits_Bit1 replicate_numeral

lemma pc_rec: "count_ones (bin_digits n) = n mod 2 + count_ones (bin_digits (n div 2))"
proof (cases "n < 2")
  case True
  then have "n = 0 \<or> n = 1" by auto
  then show ?thesis by (auto simp: bin_digits_0 bin_digits_1 bin_digits_Suc_0 count_ones_def)
next
  case False
  then show ?thesis
    by (subst bin_digits.simps) (auto simp: count_ones_def)
qed

lemma pc_shift: "b < 2 ^ k \<Longrightarrow>
  count_ones (bin_digits (a * 2 ^ k + b)) = count_ones (bin_digits a) + count_ones (bin_digits b)"
proof (induction k arbitrary: b)
  case 0
  then show ?case by (simp add: bin_digits_0 count_ones_def)
next
  case (Suc k)
  have e: "a * 2 ^ Suc k = 2 * (a * 2 ^ k)" by simp
  have m: "(a * 2 ^ Suc k + b) mod 2 = b mod 2" unfolding e by simp
  have d: "(a * 2 ^ Suc k + b) div 2 = a * 2 ^ k + b div 2" unfolding e by simp
  from Suc.prems have "b div 2 < 2 ^ k" by simp
  then have ih: "count_ones (bin_digits (a * 2 ^ k + b div 2)) =
      count_ones (bin_digits a) + count_ones (bin_digits (b div 2))"
    by (rule Suc.IH)
  show ?case
    by (subst pc_rec, subst (3) pc_rec) (simp only: m d ih)
qed

lemma length_bin_digits: "n < 2 ^ k \<Longrightarrow> 0 < k \<Longrightarrow> length (bin_digits n) \<le> k"
proof (induction n arbitrary: k rule: bin_digits.induct)
  case (1 n)
  show ?case
  proof (cases "n < 2")
    case True
    with "1.prems" show ?thesis by (subst bin_digits.simps) simp
  next
    case False
    then obtain j where k: "k = Suc j" and j: "0 < j"
      using "1.prems" by (cases k; cases "k - 1") auto
    from "1.prems" k have "n div 2 < 2 ^ j" by auto
    with "1.IH" False j have "length (bin_digits (n div 2)) \<le> j" by simp
    with False k show ?thesis by (subst bin_digits.simps) simp
  qed
qed

lemma digits_val_append:
  "digits_val dv b acc (xs @ ys) =
     (case digits_val dv b acc xs of None \<Rightarrow> None | Some a \<Rightarrow> digits_val dv b a ys)"
  by (induction xs arbitrary: acc) (auto split: option.splits)

lemma digits_val_zeros: "digits_val bin_val 2 0 (replicate k CHR ''0'') = Some 0"
  by (induction k) (auto simp: bin_val_def)

lemma bin_val_simps: "bin_val CHR ''0'' = Some 0" "bin_val CHR ''1'' = Some 1"
  by (simp_all add: bin_val_def)

lemma digits_val_bin_digits:
  "digits_val bin_val 2 acc (bin_digits n) = Some (acc * 2 ^ length (bin_digits n) + n)"
proof (induction n arbitrary: acc rule: bin_digits.induct)
  case (1 n)
  show ?case
  proof (cases "n < 2")
    case True
    then have "n = 0 \<or> n = 1" by auto
    then show ?thesis
      by (auto simp: bin_digits_0 bin_digits_1 bin_digits_Suc_0 bin_val_simps)
  next
    case False
    let ?r = "if n mod 2 = 0 then CHR ''0'' else CHR ''1''"
    have unf: "bin_digits n = bin_digits (n div 2) @ [?r]"
      using False by (subst bin_digits.simps) simp
    have ih: "digits_val bin_val 2 acc (bin_digits (n div 2)) =
        Some (acc * 2 ^ length (bin_digits (n div 2)) + n div 2)"
      using "1.IH" False by simp
    have r: "bin_val ?r = Some (n mod 2)"
      by (auto simp: bin_val_simps)
    have n: "2 * (n div 2) + n mod 2 = n" by simp
    have "digits_val bin_val 2 acc (bin_digits n) =
        Some ((acc * 2 ^ length (bin_digits (n div 2)) + n div 2) * 2 + n mod 2)"
      by (simp only: unf digits_val_append ih option.case digits_val.simps r)
    also have "(acc * 2 ^ length (bin_digits (n div 2)) + n div 2) * 2 + n mod 2 =
        acc * 2 ^ length (bin_digits n) + (2 * (n div 2) + n mod 2)"
      by (simp add: unf algebra_simps)
    finally show ?thesis by (simp only: n)
  qed
qed

lemma bin_digits_nonempty: "bin_digits n \<noteq> []"
  by (subst bin_digits.simps) simp

lemma int_base2_zfill: "int_base2 (zfill w (bin_digits n)) = Inr (int n)"
  by (simp add: int_base2_def zfill_def digits_val_append digits_val_zeros digits_val_bin_digits
      bin_digits_nonempty)

lemma count_ones_zfill: "count_ones (zfill w s) = count_ones s"
  by (simp add: zfill_def count_ones_def)

lemma or_push_bit_int: "0 \<le> b \<Longrightarrow> b < 2 ^ k \<Longrightarrow> push_bit k a OR b = a * 2 ^ k + (b::int)"
proof -
  assume "0 \<le> b" "b < 2 ^ k"
  then have "take_bit k b = b" by (simp add: take_bit_int_eq_self)
  then have "push_bit k a OR b = concat_bit k b a"
    by (simp add: concat_bit_def or.commute)
  also have "\<dots> = take_bit k b + push_bit k a" by (rule concat_bit_eq)
  finally show ?thesis using \<open>take_bit k b = b\<close> by (simp add: push_bit_eq_mult)
qed

lemma and_mask19: "(x::int) AND 0x7FFFF = x mod 2 ^ 19"
proof -
  have "x AND mask 19 = x mod 2 ^ 19"
    by (simp add: take_bit_eq_mask [symmetric] take_bit_eq_mod)
  moreover have "mask 19 = (0x7FFFF::int)" by (simp add: mask_eq_exp_minus_1)
  ultimately show ?thesis by simp
qed


lemma pc_double: "count_ones (bin_digits (2 * n)) = count_ones (bin_digits n)"
  by (subst pc_rec) simp

lemma pc_double1: "count_ones (bin_digits (2 * n + 1)) = Suc (count_ones (bin_digits n))"
  by (subst pc_rec) simp

lemma count_ones_append: "count_ones (xs @ ys) = count_ones xs + count_ones ys"
  by (simp add: count_ones_def)

lemma count_ones_digits_val:
  "digits_val bin_val 2 acc s = Some n \<Longrightarrow>
     count_ones (bin_digits n) = count_ones (bin_digits acc) + count_ones s"
proof (induction s arbitrary: acc)
  case Nil
  then show ?case by (simp add: count_ones_def)
next
  case (Cons c cs)
  from Cons.prems obtain dgt where c: "bin_val c = Some dgt"
    and rest: "digits_val bin_val 2 (acc * 2 + dgt) cs = Some n"
    by (auto split: option.splits)
  from c have "(c = CHR ''0'' \<and> dgt = 0) \<or> (c = CHR ''1'' \<and> dgt = 1)"
    by (auto simp: bin_val_def split: if_splits)
  then have "count_ones (bin_digits (acc * 2 + dgt)) = count_ones (bin_digits acc) + count_ones [c]"
    using pc_double [of acc] pc_double1 [of acc]
    by (auto simp: count_ones_def mult.commute)
  with Cons.IH [OF rest] show ?case
    using count_ones_append [of "[c]" cs] by simp
qed

lemma count_ones_int_base2:
  assumes "int_base2 s = Inr v"
  obtains n where "v = int n" and "count_ones s = count_ones (bin_digits n)"
proof -
  from assms obtain n where n: "digits_val bin_val 2 0 s = Some n" and v: "v = int n"
    by (auto simp: int_base2_def split: if_splits option.splits)
  from count_ones_digits_val [OF n] have "count_ones (bin_digits n) = count_ones s"
    by (simp add: bin_digits_0 count_ones_def)
  with v that show ?thesis by simp
qed

lemma word_layout:
  fixes l s d m :: int
  assumes "0 \<le> s" "s < 4" "0 \<le> d" "d < 2 ^ 19" "0 \<le> m" "m < 4"
  shows "push_bit 24 l OR push_bit 22 s OR push_bit 3 d OR push_bit 1 m =
           ((l * 4 + s) * 2 ^ 19 + d) * 2 ^ 3 + 2 * m"
proof -
  have a: "push_bit 3 d OR push_bit 1 m = d * 2 ^ 3 + 2 * m"
    using assms by (subst or_push_bit_int) (simp_all add: push_bit_eq_mult)
  have b: "push_bit 22 s OR (d * 2 ^ 3 + 2 * m) = s * 2 ^ 22 + (d * 2 ^ 3 + 2 * m)"
    using assms by (subst or_push_bit_int) simp_all
  have c: "push_bit 24 l OR (s * 2 ^ 22 + (d * 2 ^ 3 + 2 * m)) =
      l * 2 ^ 24 + (s * 2 ^ 22 + (d * 2 ^ 3 + 2 * m))"
    using assms by (subst or_push_bit_int) simp_all
  show ?thesis by (simp only: a b c) simp
qed

lemma pc_word:
  fixes l s d m :: nat
  assumes "s < 4" "d < 2 ^ 19" "m < 4"
  shows "count_ones (bin_digits (((l * 4 + s) * 2 ^ 19 + d) * 2 ^ 3 + 2 * m)) =
     count_ones (bin_digits l) + count_ones (bin_digits s) + count_ones (bin_digits d)
       + count_ones (bin_digits m)"
proof -
  have "2 * m < 2 ^ 3" using assms by simp
  then have "count_ones (bin_digits (((l * 4 + s) * 2 ^ 19 + d) * 2 ^ 3 + 2 * m)) =
      count_ones (bin_digits ((l * 4 + s) * 2 ^ 19 + d)) + count_ones (bin_digits (2 * m))"
    by (rule pc_shift)
  also have "count_ones (bin_digits ((l * 4 + s) * 2 ^ 19 + d)) =
      count_ones (bin_digits (l * 4 + s)) + count_ones (bin_digits d)"
    using assms(2) by (rule pc_shift)
  also have "count_ones (bin_digits (l * 4 + s)) = count_ones (bin_digits l) + count_ones (bin_digits s)"
    using pc_shift [of s 2 l] assms(1) by simp
  finally show ?thesis by (simp add: pc_double)
qed

lemma count_ones_py_bin: "count_ones (py_bin (int n)) = count_ones (bin_digits n)"
  by (simp add: py_bin_def count_ones_def)

lemma int_base16_nat: "int_base16 s = Inr l \<Longrightarrow> \<exists>n. l = int n"
  by (auto simp: int_base16_def split: if_splits option.splits)

lemma calculate_parity_correct:
  assumes l: "int_base16 label_s = Inr l"
    and s: "int_base2 sdi_s = Inr s" "s < 4"
    and d: "int_base2 data_s = Inr d" "d < 2 ^ 19"
    and m: "int_base2 ssm_s = Inr m" "m < 4"
  shows "calculate_parity label_s sdi_s data_s ssm_s =
     Inr (if even (count_ones (format_b 8 l @ sdi_s @ data_s @ ssm_s)) then ''1'' else ''0'')"
proof -
  from int_base16_nat [OF l] obtain L where L: "l = int L" ..
  from s(1) obtain S where S: "s = int S" "count_ones sdi_s = count_ones (bin_digits S)"
    by (rule count_ones_int_base2)
  from d(1) obtain D where D: "d = int D" "count_ones data_s = count_ones (bin_digits D)"
    by (rule count_ones_int_base2)
  from m(1) obtain M where M: "m = int M" "count_ones ssm_s = count_ones (bin_digits M)"
    by (rule count_ones_int_base2)
  have bounds: "S < 4" "D < 2 ^ 19" "M < 4"
    using s(2) d(2) m(2) S(1) D(1) M(1) by simp_all
  let ?w = "push_bit 24 l OR push_bit 22 s OR push_bit 3 d OR push_bit 1 m"
  let ?W = "((L * 4 + S) * 2 ^ 19 + D) * 2 ^ 3 + 2 * M"
  have "?w = ((l * 4 + s) * 2 ^ 19 + d) * 2 ^ 3 + 2 * m"
    using s(2) d(2) m(2) S(1) D(1) M(1) by (intro word_layout) simp_all
  also have "\<dots> = int ?W"
    by (simp add: L S(1) D(1) M(1))
  finally have w: "?w = int ?W" .
  have "count_ones (py_bin ?w) = count_ones (bin_digits ?W)"
    by (simp only: w count_ones_py_bin)
  also have "\<dots> = count_ones (bin_digits L) + count_ones (bin_digits S)
      + count_ones (bin_digits D) + count_ones (bin_digits M)"
    using bounds by (rule pc_word)
  also have "\<dots> = count_ones (format_b 8 l @ sdi_s @ data_s @ ssm_s)"
    by (simp add: count_ones_append format_b_def count_ones_zfill L S(2) D(2) M(2))
  finally have "count_ones (py_bin ?w) = count_ones (format_b 8 l @ sdi_s @ data_s @ ssm_s)" .
  then show ?thesis
    by (simp add: calculate_parity_def l s(1) d(1) m(1) Let_def even_iff_mod_2_eq_zero)
qed

section \<open>The words of the encoder\<close>


lemma length_zfill: "length s \<le> w \<Longrightarrow> length (zfill w s) = w"
  by (simp add: zfill_def)

lemma data19_length: "data19 s \<Longrightarrow> length s = 19"
  by (auto simp: data19_def intro!: length_zfill length_bin_digits)

lemma data19_value: "data19 s \<Longrightarrow> \<exists>d. int_base2 s = Inr d \<and> d < 2 ^ 19"
  unfolding data19_def
proof (elim exE conjE)
  fix d :: nat
  assume d: "d < 2 ^ 19" and s: "s = zfill 19 (bin_digits d)"
  from d have "int d < 2 ^ 19" by (simp add: of_nat_less_numeral_power_cancel_iff)
  with s show "\<exists>d. int_base2 s = Inr d \<and> d < 2 ^ 19"
    by (simp add: int_base2_zfill)
qed

lemma data19_mask: "data19 (format_b 19 (x AND 0x7FFFF))"
proof -
  have nn: "0 \<le> x mod 2 ^ 19" and lt: "x mod 2 ^ 19 < 2 ^ 19" by simp_all
  from lt nn have "nat (x mod 2 ^ 19) < 2 ^ 19" by (simp add: nat_less_iff)
  moreover have "\<not> x mod 2 ^ 19 < 0" using nn by (simp only: not_less)
  then have "format_b 19 (x AND 0x7FFFF) = zfill 19 (bin_digits (nat (x mod 2 ^ 19)))"
    by (simp only: and_mask19 format_b_def if_False)
  ultimately show ?thesis unfolding data19_def by blast
qed

lemma encode_latitude_post: "encode_latitude self v = Inr r \<Longrightarrow> encoder_post self r"
  by (auto simp: encode_latitude_def encoder_post_def data19_mask split: if_splits)

lemma encode_longitude_post: "encode_longitude self v = Inr r \<Longrightarrow> encoder_post self r"
  by (auto simp: encode_longitude_def encoder_post_def data19_mask split: if_splits)

lemma encode_altitude_post: "encode_altitude self v = Inr r \<Longrightarrow> encoder_post self r"
  by (auto simp: encode_altitude_def encoder_post_def data19_mask Let_def split: if_splits)

lemma encode_airspeed_post: "encode_airspeed self v = Inr r \<Longrightarrow> encoder_post self r"
  by (auto simp: encode_airspeed_def encoder_post_def data19_mask Let_def split: if_splits)

lemma encode_heading_post: "encode_heading self v = Inr r \<Longrightarrow> encoder_post self r"
  by (auto simp: encode_heading_def encoder_post_def data19_mask Let_def split: if_splits)

lemma encode_vertical_speed_post: "encode_vertical_speed self v = Inr r \<Longrightarrow> encoder_post self r"
  by (auto simp: encode_vertical_speed_def encoder_post_def data19_mask split: if_splits)

lemma int_base2_ssm: "int_base2 ''00'' = Inr 0" "int_base2 ''11'' = Inr 3"
  by (simp_all add: int_base2_def bin_val_def)

lemma calculate_parity_encoder:
  assumes lab: "int_base16 lb = Inr l"
    and db: "data19 db" and ssm: "sm = ''00'' \<or> sm = ''11''"
  shows "calculate_parity lb ''00'' db sm =
     Inr (if even (count_ones (format_b 8 l @ ''00'' @ db @ sm)) then ''1'' else ''0'')"
proof -
  from data19_value [OF db] obtain d where d: "int_base2 db = Inr d" "d < 2 ^ 19" by blast
  from ssm obtain m where m: "int_base2 sm = Inr m" "m < 4"
    by (auto simp: int_base2_ssm)
  show ?thesis
    by (rule calculate_parity_correct [OF lab int_base2_ssm(1) _ d m]) simp
qed

lemma encode_field_result:
  assumes sdi: "self_sdi self = ''00''"
    and lab: "map_of LABELS nm = Some lb" "int_base16 lb = Inr l" "length (format_b 8 l) = 8"
    and post: "\<And>r. f self v = Inr r \<Longrightarrow> encoder_post self r"
  shows "(\<exists>e. f self v = Inl e \<and> encode_field ts self (nm, v, f) = (None, self)) \<or>
         (\<exists>db s' m. f self v = Inr (db, s') \<and> encode_field ts self (nm, v, f) = (Some m, s') \<and>
            self_sdi s' = ''00'' \<and> label m = lb \<and> data m = db \<and> ssm m = self_ssm s' \<and>
            sdi m = ''00'' \<and> msg_timestamp m = ts \<and> parity_ok m)"
proof (cases "f self v")
  case (Inl e)
  then show ?thesis by (simp add: encode_field_def)
next
  case (Inr r)
  obtain db s' where r: "r = (db, s')" by (cases r)
  from post [OF Inr] r sdi have p: "data19 db" "self_sdi s' = ''00''"
      "self_ssm s' = ''00'' \<or> self_ssm s' = ''11''"
    by (simp_all add: encoder_post_def)
  let ?p = "if even (count_ones (format_b 8 l @ ''00'' @ db @ self_ssm s')) then ''1'' else ''0''"
  let ?m = "\<lparr>label = lb, sdi = ''00'', data = db, ssm = self_ssm s', parity = ?p,
             msg_timestamp = ts\<rparr>"
  have cp: "calculate_parity lb ''00'' db (self_ssm s') = Inr ?p"
    by (rule calculate_parity_encoder [OF lab(2) p(1) p(3)])
  have ef: "encode_field ts self (nm, v, f) = (Some ?m, s')"
    by (simp add: encode_field_def Inr r lab(1) p(2) cp)
  have len: "length (word31 l ?m) = 31"
    using p(3) data19_length [OF p(1)] lab(3) by (auto simp: word31_def)
  have "parity_ok ?m"
    unfolding parity_ok_def using lab(2) len by (auto simp: word31_def)
  with ef Inr r p(2) show ?thesis by auto
qed

lemma LABELS_lookup:
  "map_of LABELS ''latitude'' = Some ''6A''" "map_of LABELS ''longitude'' = Some ''6B''"
  "map_of LABELS ''altitude'' = Some ''6C''" "map_of LABELS ''airspeed'' = Some ''6D''"
  "map_of LABELS ''heading'' = Some ''6E''" "map_of LABELS ''vertical_speed'' = Some ''6F''"
  by (simp_all add: LABELS_def)

lemma int_base16_labels:
  "int_base16 ''6A'' = Inr 106" "int_base16 ''6B'' = Inr 107" "int_base16 ''6C'' = Inr 108"
  "int_base16 ''6D'' = Inr 109" "int_base16 ''6E'' = Inr 110" "int_base16 ''6F'' = Inr 111"
  by (simp_all add: int_base16_def hex_val_def)

lemma format_b_labels:
  "format_b 8 106 = ''01101010''" "format_b 8 107 = ''01101011''" "format_b 8 108 = ''01101100''"
  "format_b 8 109 = ''01101101''" "format_b 8 110 = ''01101110''" "format_b 8 111 = ''01101111''"
  by (simp_all add: format_b_def zfill_def bin_digits_numeral)


lemma uniform_latitude: "uniform encode_latitude v"
proof -
  consider "v < - 90 \<or> v > 90" | "\<not> (v < - 90 \<or> v > 90)" "v \<ge> 0"
    | "\<not> (v < - 90 \<or> v > 90)" "\<not> v \<ge> 0" by blast
  then show ?thesis
  proof cases
    case 1
    then show ?thesis unfolding uniform_def
      by (intro exI [of _ None]) (simp add: encode_latitude_def)
  next
    case 2
    then show ?thesis unfolding uniform_def
      by (intro exI [of _ "Some (format_b 19 (py_int (\<bar>v\<bar> * 10000) AND 0x7FFFF), ''00'')"])
        (simp add: encode_latitude_def)
  next
    case 3
    then show ?thesis unfolding uniform_def
      by (intro exI [of _ "Some (format_b 19 (py_int (\<bar>v\<bar> * 10000) AND 0x7FFFF), ''11'')"])
        (simp add: encode_latitude_def)
  qed
qed

lemma uniform_longitude: "uniform encode_longitude v"
proof -
  consider "v < - 180 \<or> v > 180" | "\<not> (v < - 180 \<or> v > 180)" "v \<ge> 0"
    | "\<not> (v < - 180 \<or> v > 180)" "\<not> v \<ge> 0" by blast
  then show ?thesis
  proof cases
    case 1
    then show ?thesis unfolding uniform_def
      by (intro exI [of _ None]) (simp add: encode_longitude_def)
  next
    case 2
    then show ?thesis unfolding uniform_def
      by (intro exI [of _ "Some (format_b 19 (py_int (\<bar>v\<bar> * 10000) AND 0x7FFFF), ''00'')"])
        (simp add: encode_longitude_def)
  next
    case 3
    then show ?thesis unfolding uniform_def
      by (intro exI [of _ "Some (format_b 19 (py_int (\<bar>v\<bar> * 10000) AND 0x7FFFF), ''11'')"])
        (simp add: encode_longitude_def)
  qed
qed

lemma uniform_vertical_speed: "uniform encode_vertical_speed v"
proof -
  consider "v < - 10000 \<or> v > 10000" | "\<not> (v < - 10000 \<or> v > 10000)" "v \<ge> 0"
    | "\<not> (v < - 10000 \<or> v > 10000)" "\<not> v \<ge> 0" by blast
  then show ?thesis
  proof cases
    case 1
    then show ?thesis unfolding uniform_def
      by (intro exI [of _ None]) (simp add: encode_vertical_speed_def)
  next
    case 2
    then show ?thesis unfolding uniform_def
      by (intro exI [of _ "Some (format_b 19 (py_int \<bar>v\<bar> AND 0x7FFFF), ''00'')"])
        (simp add: encode_vertical_speed_def)
  next
    case 3
    then show ?thesis unfolding uniform_def
      by (intro exI [of _ "Some (format_b 19 (py_int \<bar>v\<bar> AND 0x7FFFF), ''11'')"])
        (simp add: encode_vertical_speed_def)
  qed
qed

lemma uniform_altitude: "uniform encode_altitude v"
proof (cases "v < 0 \<or> v > 50000")
  case True
  then show ?thesis unfolding uniform_def
    by (intro exI [of _ None]) (simp add: encode_altitude_def)
next
  case False
  then show ?thesis unfolding uniform_def
    by (intro exI [of _ "Some (format_b 19 (py_int v AND 0x7FFFF), ''00'')"])
      (simp add: encode_altitude_def Let_def)
qed

lemma uniform_airspeed: "uniform encode_airspeed v"
proof (cases "v < 0 \<or> v > 1000")
  case True
  then show ?thesis unfolding uniform_def
    by (intro exI [of _ None]) (simp add: encode_airspeed_def)
next
  case False
  then show ?thesis unfolding uniform_def
    by (intro exI [of _ "Some (format_b 19 (py_int (v * 10) AND 0x7FFFF), ''00'')"])
      (simp add: encode_airspeed_def Let_def)
qed

lemma uniform_heading: "uniform encode_heading v"
proof (cases "v < 0 \<or> v > 360")
  case True
  then show ?thesis unfolding uniform_def
    by (intro exI [of _ None]) (simp add: encode_heading_def)
next
  case False
  then show ?thesis unfolding uniform_def
    by (intro exI [of _ "Some (format_b 19 (py_int (v * 10) AND 0x7FFFF), ''00'')"])
      (simp add: encode_heading_def Let_def)
qed

lemma encode_field_uniform:
  assumes u: "uniform f v" and sdi: "self_sdi s1 = self_sdi s2"
  shows "fst (encode_field ts s1 (nm, v, f)) = fst (encode_field ts s2 (nm, v, f)) \<and>
         self_sdi (snd (encode_field ts s1 (nm, v, f))) = self_sdi s1"
proof -
  from u obtain r where r: "\<And>self. f self v =
      (case r of None \<Rightarrow> Inl ValueError | Some (db, sm) \<Rightarrow> Inr (db, self\<lparr>self_ssm := sm\<rparr>))"
    unfolding uniform_def by blast
  show ?thesis
  proof (cases r)
    case None
    with r show ?thesis by (simp add: encode_field_def)
  next
    case (Some a)
    obtain db sm where a: "a = (db, sm)" by (cases a)
    have f: "\<And>self. f self v = Inr (db, self\<lparr>self_ssm := sm\<rparr>)"
      using r Some a by simp
    show ?thesis
    proof (cases "map_of LABELS nm")
      case None
      then show ?thesis by (simp add: encode_field_def f)
    next
      case (Some lb)
      then show ?thesis
        by (cases "calculate_parity lb (self_sdi s2) db sm")
          (simp_all add: encode_field_def f sdi)
    qed
  qed
qed

lemma encodings_cases:
  assumes "enc \<in> set (encodings fd)"
  shows "enc = (''latitude'', latitude fd, encode_latitude) \<or>
         enc = (''longitude'', longitude fd, encode_longitude) \<or>
         enc = (''altitude'', altitude fd, encode_altitude) \<or>
         enc = (''airspeed'', airspeed fd, encode_airspeed) \<or>
         enc = (''heading'', heading fd, encode_heading) \<or>
         enc = (''vertical_speed'', vertical_speed fd, encode_vertical_speed)"
proof -
  have "set (encodings fd) = {(''latitude'', latitude fd, encode_latitude),
     (''longitude'', longitude fd, encode_longitude),
     (''altitude'', altitude fd, encode_altitude),
     (''airspeed'', airspeed fd, encode_airspeed),
     (''heading'', heading fd, encode_heading),
     (''vertical_speed'', vertical_speed fd, encode_vertical_speed)}"
    unfolding encodings_def by (simp only: list.set)
  with assms show ?thesis by (simp only: insert_iff empty_iff simp_thms)
qed

lemma encode_field_indep:
  assumes "enc \<in> set (encodings fd)" and "self_sdi s1 = self_sdi s2"
  shows "fst (encode_field ts s1 enc) = fst (encode_field ts s2 enc) \<and>
         self_sdi (snd (encode_field ts s1 enc)) = self_sdi s1"
  using encodings_cases [OF assms(1)]
proof (elim disjE)
  assume e: "enc = (''latitude'', latitude fd, encode_latitude)"
  show ?thesis unfolding e by (rule encode_field_uniform [OF uniform_latitude assms(2)])
next
  assume e: "enc = (''longitude'', longitude fd, encode_longitude)"
  show ?thesis unfolding e by (rule encode_field_uniform [OF uniform_longitude assms(2)])
next
  assume e: "enc = (''altitude'', altitude fd, encode_altitude)"
  show ?thesis unfolding e by (rule encode_field_uniform [OF uniform_altitude assms(2)])
next
  assume e: "enc = (''airspeed'', airspeed fd, encode_airspeed)"
  show ?thesis unfolding e by (rule encode_field_uniform [OF uniform_airspeed assms(2)])
next
  assume e: "enc = (''heading'', heading fd, encode_heading)"
  show ?thesis unfolding e by (rule encode_field_uniform [OF uniform_heading assms(2)])
next
  assume e: "enc = (''vertical_speed'', vertical_speed fd, encode_vertical_speed)"
  show ?thesis unfolding e by (rule encode_field_uniform [OF uniform_vertical_speed assms(2)])
qed

lemma encode_loop_fields:
  assumes "set encs \<subseteq> set (encodings fd)" and "self_sdi s = self_sdi s0"
  shows "fst (encode_loop ts s msgs encs) = msgs @ concat (map (field_words ts s0) encs)"
  using assms
proof (induction encs arbitrary: s msgs)
  case Nil
  then show ?case by simp
next
  case (Cons enc rest)
  obtain r s' where ef: "encode_field ts s enc = (r, s')" by (cases "encode_field ts s enc")
  from Cons.prems have mem: "enc \<in> set (encodings fd)" and sub: "set rest \<subseteq> set (encodings fd)"
    by simp_all
  from encode_field_indep [OF mem Cons.prems(2), of ts] ef
  have r: "fst (encode_field ts s0 enc) = r" and s': "self_sdi s' = self_sdi s0"
    using Cons.prems(2) by simp_all
  show ?case
    using Cons.IH [OF sub s'] ef r
    by (cases r) (simp_all add: field_words_def)
qed

lemma encode_flight_data_fields:
  "fst (encode_flight_data self fd) =
     concat (map (field_words (timestamp fd) self) (encodings fd))"
  unfolding encode_flight_data_def
  using encode_loop_fields [of "encodings fd" fd self self "timestamp fd" "[]"] by simp

lemma length_field_words: "length (field_words ts self enc) \<le> 1"
  by (simp add: field_words_def split: option.splits)

lemma length_concat_field_words:
  "length (concat (map (field_words ts self) encs)) \<le> length encs"
proof (induction encs)
  case Nil
  show ?case by simp
next
  case (Cons enc rest)
  with length_field_words [of ts self enc] show ?case by simp
qed

lemma encode_latitude_isl: "isl (encode_latitude self v) \<longleftrightarrow> \<not> (- 90 \<le> v \<and> v \<le> 90)"
  by (auto simp: encode_latitude_def split: prod.splits)
lemma encode_longitude_isl: "isl (encode_longitude self v) \<longleftrightarrow> \<not> (- 180 \<le> v \<and> v \<le> 180)"
  by (auto simp: encode_longitude_def split: prod.splits)
lemma encode_altitude_isl: "isl (encode_altitude self v) \<longleftrightarrow> \<not> (0 \<le> v \<and> v \<le> 50000)"
  by (auto simp: encode_altitude_def Let_def)
lemma encode_airspeed_isl: "isl (encode_airspeed self v) \<longleftrightarrow> \<not> (0 \<le> v \<and> v \<le> 1000)"
  by (auto simp: encode_airspeed_def Let_def)
lemma encode_heading_isl: "isl (encode_heading self v) \<longleftrightarrow> \<not> (0 \<le> v \<and> v \<le> 360)"
  by (auto simp: encode_heading_def Let_def)
lemma encode_vertical_speed_isl: "isl (encode_vertical_speed self v) \<longleftrightarrow> \<not> (- 10000 \<le> v \<and> v \<le> 10000)"
  by (auto simp: encode_vertical_speed_def split: prod.splits)

lemma field_words_result:
  assumes sdi: "self_sdi self = ''00''"
    and lab: "map_of LABELS nm = Some lb" "int_base16 lb = Inr l" "length (format_b 8 l) = 8"
    and post: "\<And>r. f self v = Inr r \<Longrightarrow> encoder_post self r"
  shows "map label (field_words ts self (nm, v, f)) = (if isl (f self v) then [] else [lb]) \<and>
         (\<forall>m\<in>set (field_words ts self (nm, v, f)). parity_ok m)"
proof -
  from encode_field_result [OF sdi lab post, where ts = ts]
  consider e where "f self v = Inl e" "encode_field ts self (nm, v, f) = (None, self)"
    | db s' m where "f self v = Inr (db, s')" "encode_field ts self (nm, v, f) = (Some m, s')"
        "label m = lb" "parity_ok m"
    by blast
  then show ?thesis
    by cases (simp_all add: field_words_def)
qed

lemma length_format_b_labels:
  "length (format_b 8 106) = 8" "length (format_b 8 107) = 8" "length (format_b 8 108) = 8"
  "length (format_b 8 109) = 8" "length (format_b 8 110) = 8" "length (format_b 8 111) = 8"
  by (simp_all only: format_b_labels) simp_all

lemma field_words_latitude:
  assumes sdi: "self_sdi self = ''00''"
  shows "map label (field_words ts self (''latitude'', v, encode_latitude)) =
           (if isl (encode_latitude self v) then [] else [''6A'']) \<and>
         (\<forall>m\<in>set (field_words ts self (''latitude'', v, encode_latitude)). parity_ok m)"
  by (rule field_words_result [where f = encode_latitude and l = 106, OF sdi LABELS_lookup(1)
        int_base16_labels(1) length_format_b_labels(1) encode_latitude_post])

lemma field_words_longitude:
  assumes sdi: "self_sdi self = ''00''"
  shows "map label (field_words ts self (''longitude'', v, encode_longitude)) =
           (if isl (encode_longitude self v) then [] else [''6B'']) \<and>
         (\<forall>m\<in>set (field_words ts self (''longitude'', v, encode_longitude)). parity_ok m)"
  by (rule field_words_result [where f = encode_longitude and l = 107, OF sdi LABELS_lookup(2)
        int_base16_labels(2) length_format_b_labels(2) encode_longitude_post])

lemma field_words_altitude:
  assumes sdi: "self_sdi self = ''00''"
  shows "map label (field_words ts self (''altitude'', v, encode_altitude)) =
           (if isl (encode_altitude self v) then [] else [''6C'']) \<and>
         (\<forall>m\<in>set (field_words ts self (''altitude'', v, encode_altitude)). parity_ok m)"
  by (rule field_words_result [where f = encode_altitude and l = 108, OF sdi LABELS_lookup(3)
        int_base16_labels(3) length_format_b_labels(3) encode_altitude_post])

lemma field_words_airspeed:
  assumes sdi: "self_sdi self = ''00''"
  shows "map label (field_words ts self (''airspeed'', v, encode_airspeed)) =
           (if isl (encode_airspeed self v) then [] else [''6D'']) \<and>
         (\<forall>m\<in>set (field_words ts self (''airspeed'', v, encode_airspeed)). parity_ok m)"
  by (rule field_words_result [where f = encode_airspeed and l = 109, OF sdi LABELS_lookup(4)
        int_base16_labels(4) length_format_b_labels(4) encode_airspeed_post])

lemma field_words_heading:
  assumes sdi: "self_sdi self = ''00''"
  shows "map label (field_words ts self (''heading'', v, encode_heading)) =
           (if isl (encode_heading self v) then [] else [''6E'']) \<and>
         (\<forall>m\<in>set (field_words ts self (''heading'', v, encode_heading)). parity_ok m)"
  by (rule field_words_result [where f = encode_heading and l = 110, OF sdi LABELS_lookup(5)
        int_base16_labels(5) length_format_b_labels(5) encode_heading_post])

lemma field_words_vertical_speed:
  assumes sdi: "self_sdi self = ''00''"
  shows "map label (field_words ts self (''vertical_speed'', v, encode_vertical_speed)) =
           (if isl (encode_vertical_speed self v) then [] else [''6F'']) \<and>
         (\<forall>m\<in>set (field_words ts self (''vertical_speed'', v, encode_vertical_speed)). parity_ok m)"
  by (rule field_words_result [where f = encode_vertical_speed and l = 111, OF sdi LABELS_lookup(6)
        int_base16_labels(6) length_format_b_labels(6) encode_vertical_speed_post])

lemma field_words_encodings:
  assumes sdi: "self_sdi self = ''00''"
  shows "map label (field_words ts self (''latitude'', v, encode_latitude)) =
           (if - 90 \<le> v \<and> v \<le> 90 then [''6A''] else [])"
    and "map label (field_words ts self (''longitude'', v, encode_longitude)) =
           (if - 180 \<le> v \<and> v \<le> 180 then [''6B''] else [])"
    and "map label (field_words ts self (''altitude'', v, encode_altitude)) =
           (if 0 \<le> v \<and> v \<le> 50000 then [''6C''] else [])"
    and "map label (field_words ts self (''airspeed'', v, encode_airspeed)) =
           (if 0 \<le> v \<and> v \<le> 1000 then [''6D''] else [])"
    and "map label (field_words ts self (''heading'', v, encode_heading)) =
           (if 0 \<le> v \<and> v \<le> 360 then [''6E''] else [])"
    and "map label (field_words ts self (''vertical_speed'', v, encode_vertical_speed)) =
           (if - 10000 \<le> v \<and> v \<le> 10000 then [''6F''] else [])"
proof -
  show "map label (field_words ts self (''latitude'', v, encode_latitude)) =
           (if - 90 \<le> v \<and> v \<le> 90 then [''6A''] else [])"
    using field_words_latitude [OF sdi, where v = v and ts = ts] by (simp only: encode_latitude_isl) simp
  show "map label (field_words ts self (''longitude'', v, encode_longitude)) =
           (if - 180 \<le> v \<and> v \<le> 180 then [''6B''] else [])"
    using field_words_longitude [OF sdi, where v = v and ts = ts] by (simp only: encode_longitude_isl) simp
  show "map label (field_words ts self (''altitude'', v, encode_altitude)) =
           (if 0 \<le> v \<and> v \<le> 50000 then [''6C''] else [])"
    using field_words_altitude [OF sdi, where v = v and ts = ts] by (simp only: encode_altitude_isl) simp
  show "map label (field_words ts self (''airspeed'', v, encode_airspeed)) =
           (if 0 \<le> v \<and> v \<le> 1000 then [''6D''] else [])"
    using field_words_airspeed [OF sdi, where v = v and ts = ts] by (simp only: encode_airspeed_isl) simp
  show "map label (field_words ts self (''heading'', v, encode_heading)) =
           (if 0 \<le> v \<and> v \<le> 360 then [''6E''] else [])"
    using field_words_heading [OF sdi, where v = v and ts = ts] by (simp only: encode_heading_isl) simp
  show "map label (field_words ts self (''vertical_speed'', v, encode_vertical_speed)) =
           (if - 10000 \<le> v \<and> v \<le> 10000 then [''6F''] else [])"
    using field_words_vertical_speed [OF sdi, where v = v and ts = ts] by (simp only: encode_vertical_speed_isl) simp
qed

lemma field_words_parity:
  assumes sdi: "self_sdi self = ''00''" and enc: "enc \<in> set (encodings fd)"
    and m: "m \<in> set (field_words ts self enc)"
  shows "parity_ok m"
proof -
  note all = field_words_latitude [OF sdi, where v = "latitude fd" and ts = ts, THEN conjunct2]
    field_words_longitude [OF sdi, where v = "longitude fd" and ts = ts, THEN conjunct2]
    field_words_altitude [OF sdi, where v = "altitude fd" and ts = ts, THEN conjunct2]
    field_words_airspeed [OF sdi, where v = "airspeed fd" and ts = ts, THEN conjunct2]
    field_words_heading [OF sdi, where v = "heading fd" and ts = ts, THEN conjunct2]
    field_words_vertical_speed [OF sdi, where v = "vertical_speed fd" and ts = ts, THEN conjunct2]
  from encodings_cases [OF enc] m all show ?thesis by blast
qed

section \<open>Parity of the encoded words\<close>

text \<open>
  Claim C2. Every message that \<open>encode_flight_data\<close> returns, on an encoder whose
  \<open>sdi\<close> is \<open>"00"\<close>, has a label that parses, 31 characters of label, sdi, data and
  ssm, the parity \<open>"1"\<close> exactly when these hold an even number of ones and \<open>"0"\<close>
  exactly when they hold an odd number, and a 32-character word that
  \<open>validate_arinc429_word\<close> accepts: its number of ones is odd. The data string is
  arbitrary, all zeros and all ones included.
\<close>

theorem encoder_parity_odd:
  assumes "self_sdi self = ''00''"
    and "m \<in> set (fst (encode_flight_data self flight_data))"
  shows "\<exists>l. int_base16 (label m) = Inr l \<and> length (word31 l m) = 31 \<and>
           (parity m = ''1'' \<longleftrightarrow> even (count_ones (word31 l m))) \<and>
           (parity m = ''0'' \<longleftrightarrow> odd (count_ones (word31 l m))) \<and>
           validate_arinc429_word
             (create_arinc429_word l (sdi m) (data m) (ssm m) (parity m))"
proof -
  from assms(2) obtain enc where "enc \<in> set (encodings flight_data)"
      and "m \<in> set (field_words (timestamp flight_data) self enc)"
    by (auto simp: encode_flight_data_fields)
  with assms(1) have "parity_ok m" by (rule field_words_parity)
  then obtain l where l: "int_base16 (label m) = Inr l" and len: "length (word31 l m) = 31"
    and p: "parity m = (if even (count_ones (word31 l m)) then ''1'' else ''0'')"
    unfolding parity_ok_def by blast
  have w: "create_arinc429_word l (sdi m) (data m) (ssm m) (parity m) = word31 l m @ parity m"
    by (simp add: create_arinc429_word_def word31_def)
  have "odd (count_ones (word31 l m @ parity m))"
  proof (cases "even (count_ones (word31 l m))")
    case True
    with p have "count_ones (parity m) = 1" by (simp add: count_ones_def)
    with True show ?thesis by (simp add: count_ones_append)
  next
    case False
    with p have "count_ones (parity m) = 0" by (simp add: count_ones_def)
    with False show ?thesis by (simp add: count_ones_append)
  qed
  then have "validate_arinc429_word (word31 l m @ parity m)"
    using len p by (auto simp: validate_arinc429_word_def odd_iff_mod_2_eq_one)
  with l len p w show ?thesis by auto
qed

lemmas codec_eval = encode_latitude_def encode_longitude_def encode_altitude_def encode_airspeed_def
  encode_heading_def encode_vertical_speed_def py_int_def format_b_def zfill_def bin_digits_numeral
  calculate_parity_def int_base2_def int_base16_def bin_val_def hex_val_def py_bin_def count_ones_def
  encode_field_def LABELS_def field_words_def ARINC429Encoder_init_def

text \<open>The claim at the latitude 52.4287, whose data string is nineteen ones.\<close>

lemma fw1: "field_words 7 ARINC429Encoder_init (''latitude'', latitude fd_all_ones, encode_latitude) =
   [\<lparr>label = ''6A'', sdi = ''00'', data = ''1111111111111111111'', ssm = ''00'', parity = ''0'',
     msg_timestamp = 7\<rparr>]"
  by (simp add: fd_all_ones_def codec_eval)

theorem encoder_parity_odd_witness:
  "self_sdi ARINC429Encoder_init = ''00'' \<and>
   \<lparr>label = ''6A'', sdi = ''00'', data = ''1111111111111111111'', ssm = ''00'', parity = ''0'',
     msg_timestamp = 7\<rparr> \<in> set (fst (encode_flight_data ARINC429Encoder_init fd_all_ones)) \<and>
   int_base16 ''6A'' = Inr 106 \<and>
   count_ones (''01101010'' @ ''00'' @ ''1111111111111111111'' @ ''00'') = 23 \<and>
   validate_arinc429_word (create_arinc429_word 106 ''00'' ''1111111111111111111'' ''00'' ''0'')"
proof -
  let ?m = "\<lparr>label = ''6A'', sdi = ''00'', data = ''1111111111111111111'', ssm = ''00'',
     parity = ''0'', msg_timestamp = 7\<rparr>"
  have h1: "self_sdi ARINC429Encoder_init = ''00''" by (simp add: ARINC429Encoder_init_def)
  have h2: "?m \<in> set (fst (encode_flight_data ARINC429Encoder_init fd_all_ones))"
  proof -
    have "timestamp fd_all_ones = 7" by (simp add: fd_all_ones_def)
    then show ?thesis by (simp add: encode_flight_data_fields encodings_def fw1)
  qed
  from encoder_parity_odd [OF h1 h2] int_base16_labels(1)
  have "validate_arinc429_word (create_arinc429_word 106 ''00'' ''1111111111111111111'' ''00'' ''0'')"
    by simp
  moreover have "count_ones (''01101010'' @ ''00'' @ ''1111111111111111111'' @ ''00'') = 23"
    by (simp add: count_ones_def)
  ultimately show ?thesis using h1 h2 int_base16_labels(1) by simp
qed

section \<open>Partial results of the encoder\<close>

text \<open>Each field gives the word of the specification when its value is in range, and none otherwise.\<close>

lemma masked_data:
  assumes "0 \<le> y"
  shows "format_b 19 (py_int y AND 0x7FFFF) = zfill 19 (bin_digits (nat (\<lfloor>y\<rfloor> mod 2 ^ 19)))"
proof -
  have p: "py_int y = \<lfloor>y\<rfloor>" using assms by (simp add: py_int_def)
  have "\<not> \<lfloor>y\<rfloor> mod 2 ^ 19 < 0" by (simp add: not_less)
  then show ?thesis by (simp only: p and_mask19 format_b_def if_False)
qed

lemma field_words_raise: "isl (f self v) \<Longrightarrow> field_words ts self (nm, v, f) = []"
  by (cases "f self v") (simp_all add: field_words_def encode_field_def)

lemma field_words_word:
  assumes sdi: "self_sdi self = ''00''"
    and lab: "map_of LABELS nm = Some lb" "int_base16 lb = Inr (int code)"
    and enc: "f self v = Inr (zfill 19 (bin_digits (nat n)), self\<lparr>self_ssm := sm\<rparr>)"
    and n: "0 \<le> n" "n < 2 ^ 19" and sm: "sm = ''00'' \<or> sm = ''11''"
  shows "field_words ts self (nm, v, f) =
     [\<lparr>label = lb, sdi = ''00'', data = zfill 19 (bin_digits (nat n)), ssm = sm,
       parity = (if even (count_ones (zfill 8 (bin_digits code) @ ''00'' @
                    zfill 19 (bin_digits (nat n)) @ sm)) then ''1'' else ''0''),
       msg_timestamp = ts\<rparr>]"
proof -
  let ?db = "zfill 19 (bin_digits (nat n))"
  from n have "nat n < 2 ^ 19" by (simp add: nat_less_iff)
  then have db: "data19 ?db" unfolding data19_def by blast
  have fb: "format_b 8 (int code) = zfill 8 (bin_digits code)" by (simp add: format_b_def)
  have cp: "calculate_parity lb ''00'' ?db sm =
      Inr (if even (count_ones (zfill 8 (bin_digits code) @ ''00'' @ ?db @ sm)) then ''1'' else ''0'')"
    using calculate_parity_encoder [OF lab(2) db sm] unfolding fb .
  show ?thesis
    by (simp add: field_words_def encode_field_def enc lab(1) sdi cp)
qed

lemma mod19_bounds: "0 \<le> (x :: int) mod 2 ^ 19" "x mod 2 ^ 19 < 2 ^ 19"
  by simp_all

lemma field_words_latitude_word:
  assumes sdi: "self_sdi self = ''00''"
  shows "field_words ts self (''latitude'', v, encode_latitude) =
     (if - 90 \<le> v \<and> v \<le> 90 then [spec_word ''6A'' 0x6A 10000 True v ts] else [])"
proof (cases "- 90 \<le> v \<and> v \<le> 90")
  case False
  then have "isl (encode_latitude self v)" by (simp add: encode_latitude_isl)
  with False show ?thesis by (simp add: field_words_raise)
next
  case True
  let ?n = "\<lfloor>\<bar>v\<bar> * 10000\<rfloor> mod 2 ^ 19"
  let ?sm = "if v < 0 then ''11'' else ''00''"
  have d: "format_b 19 (py_int (\<bar>v\<bar> * 10000) AND 0x7FFFF) = zfill 19 (bin_digits (nat ?n))"
    by (rule masked_data) simp
  have enc: "encode_latitude self v = Inr (zfill 19 (bin_digits (nat ?n)), self\<lparr>self_ssm := ?sm\<rparr>)"
    using True masked_data [of "v * 10000"] masked_data [of "- (v * 10000)"]
    by (simp add: encode_latitude_def)
  have "?sm = ''00'' \<or> ?sm = ''11''" by simp
  from field_words_word [where f = encode_latitude and code = 106 and ts = ts and n = "?n"
      and sm = "?sm" and self = self and v = v, OF sdi LABELS_lookup(1) _ enc mod19_bounds this] True
  show ?thesis by (simp add: int_base16_labels spec_word_def Let_def)
qed

lemma field_words_longitude_word:
  assumes sdi: "self_sdi self = ''00''"
  shows "field_words ts self (''longitude'', v, encode_longitude) =
     (if - 180 \<le> v \<and> v \<le> 180 then [spec_word ''6B'' 0x6B 10000 True v ts] else [])"
proof (cases "- 180 \<le> v \<and> v \<le> 180")
  case False
  then have "isl (encode_longitude self v)" by (simp add: encode_longitude_isl)
  with False show ?thesis by (simp add: field_words_raise)
next
  case True
  let ?n = "\<lfloor>\<bar>v\<bar> * 10000\<rfloor> mod 2 ^ 19"
  let ?sm = "if v < 0 then ''11'' else ''00''"
  have d: "format_b 19 (py_int (\<bar>v\<bar> * 10000) AND 0x7FFFF) = zfill 19 (bin_digits (nat ?n))"
    by (rule masked_data) simp
  have enc: "encode_longitude self v = Inr (zfill 19 (bin_digits (nat ?n)), self\<lparr>self_ssm := ?sm\<rparr>)"
    using True masked_data [of "v * 10000"] masked_data [of "- (v * 10000)"]
    by (simp add: encode_longitude_def)
  have "?sm = ''00'' \<or> ?sm = ''11''" by simp
  from field_words_word [where f = encode_longitude and code = 107 and ts = ts and n = "?n"
      and sm = "?sm" and self = self and v = v, OF sdi LABELS_lookup(2) _ enc mod19_bounds this] True
  show ?thesis by (simp add: int_base16_labels spec_word_def Let_def)
qed

lemma field_words_vertical_speed_word:
  assumes sdi: "self_sdi self = ''00''"
  shows "field_words ts self (''vertical_speed'', v, encode_vertical_speed) =
     (if - 10000 \<le> v \<and> v \<le> 10000 then [spec_word ''6F'' 0x6F 1 True v ts] else [])"
proof (cases "- 10000 \<le> v \<and> v \<le> 10000")
  case False
  then have "isl (encode_vertical_speed self v)" by (simp add: encode_vertical_speed_isl)
  with False show ?thesis by (simp add: field_words_raise)
next
  case True
  let ?n = "\<lfloor>\<bar>v\<bar>\<rfloor> mod 2 ^ 19"
  let ?sm = "if v < 0 then ''11'' else ''00''"
  have d: "format_b 19 (py_int \<bar>v\<bar> AND 0x7FFFF) = zfill 19 (bin_digits (nat ?n))"
    by (rule masked_data) simp
  have enc: "encode_vertical_speed self v =
      Inr (zfill 19 (bin_digits (nat ?n)), self\<lparr>self_ssm := ?sm\<rparr>)"
    using True masked_data [of v] masked_data [of "- v"]
    by (simp add: encode_vertical_speed_def)
  have "?sm = ''00'' \<or> ?sm = ''11''" by simp
  from field_words_word [where f = encode_vertical_speed and code = 111 and ts = ts and n = "?n"
      and sm = "?sm" and self = self and v = v, OF sdi LABELS_lookup(6) _ enc mod19_bounds this] True
  show ?thesis by (simp add: int_base16_labels spec_word_def Let_def)
qed

lemma field_words_altitude_word:
  assumes sdi: "self_sdi self = ''00''"
  shows "field_words ts self (''altitude'', v, encode_altitude) =
     (if 0 \<le> v \<and> v \<le> 50000 then [spec_word ''6C'' 0x6C 1 False v ts] else [])"
proof (cases "0 \<le> v \<and> v \<le> 50000")
  case False
  then have "isl (encode_altitude self v)" by (simp add: encode_altitude_isl)
  with False show ?thesis by (simp add: field_words_raise)
next
  case True
  let ?n = "\<lfloor>v\<rfloor> mod 2 ^ 19"
  have d: "format_b 19 (py_int v AND 0x7FFFF) = zfill 19 (bin_digits (nat ?n))"
    using True by (intro masked_data) simp
  have enc: "encode_altitude self v =
      Inr (zfill 19 (bin_digits (nat ?n)), self\<lparr>self_ssm := ''00''\<rparr>)"
    using True by (simp add: encode_altitude_def d Let_def)
  have "''00'' = ''00'' \<or> ''00'' = ''11''" by simp
  from field_words_word [where f = encode_altitude and code = 108 and ts = ts and n = "?n"
      and sm = "''00''" and self = self and v = v, OF sdi LABELS_lookup(3) _ enc mod19_bounds this] True
  show ?thesis by (simp add: int_base16_labels spec_word_def Let_def)
qed

lemma field_words_airspeed_word:
  assumes sdi: "self_sdi self = ''00''"
  shows "field_words ts self (''airspeed'', v, encode_airspeed) =
     (if 0 \<le> v \<and> v \<le> 1000 then [spec_word ''6D'' 0x6D 10 False v ts] else [])"
proof (cases "0 \<le> v \<and> v \<le> 1000")
  case False
  then have "isl (encode_airspeed self v)" by (simp add: encode_airspeed_isl)
  with False show ?thesis by (simp add: field_words_raise)
next
  case True
  let ?n = "\<lfloor>v * 10\<rfloor> mod 2 ^ 19"
  have d: "format_b 19 (py_int (v * 10) AND 0x7FFFF) = zfill 19 (bin_digits (nat ?n))"
    using True by (intro masked_data) simp
  have enc: "encode_airspeed self v =
      Inr (zfill 19 (bin_digits (nat ?n)), self\<lparr>self_ssm := ''00''\<rparr>)"
    using True by (simp add: encode_airspeed_def d Let_def)
  have "''00'' = ''00'' \<or> ''00'' = ''11''" by simp
  from field_words_word [where f = encode_airspeed and code = 109 and ts = ts and n = "?n"
      and sm = "''00''" and self = self and v = v, OF sdi LABELS_lookup(4) _ enc mod19_bounds this] True
  show ?thesis by (simp add: int_base16_labels spec_word_def Let_def)
qed

lemma field_words_heading_word:
  assumes sdi: "self_sdi self = ''00''"
  shows "field_words ts self (''heading'', v, encode_heading) =
     (if 0 \<le> v \<and> v \<le> 360 then [spec_word ''6E'' 0x6E 10 False v ts] else [])"
proof (cases "0 \<le> v \<and> v \<le> 360")
  case False
  then have "isl (encode_heading self v)" by (simp add: encode_heading_isl)
  with False show ?thesis by (simp add: field_words_raise)
next
  case True
  let ?n = "\<lfloor>v * 10\<rfloor> mod 2 ^ 19"
  have d: "format_b 19 (py_int (v * 10) AND 0x7FFFF) = zfill 19 (bin_digits (nat ?n))"
    using True by (intro masked_data) simp
  have enc: "encode_heading self v =
      Inr (zfill 19 (bin_digits (nat ?n)), self\<lparr>self_ssm := ''00''\<rparr>)"
    using True by (simp add: encode_heading_def d Let_def)
  have "''00'' = ''00'' \<or> ''00'' = ''11''" by simp
  from field_words_word [where f = encode_heading and code = 110 and ts = ts and n = "?n"
      and sm = "''00''" and self = self and v = v, OF sdi LABELS_lookup(5) _ enc mod19_bounds this] True
  show ?thesis by (simp add: int_base16_labels spec_word_def Let_def)
qed

text \<open>
  Claim C5. \<open>encode_flight_data\<close> returns at most six words; they are the words of the
  six fields taken one by one in the order latitude, longitude, altitude, airspeed,
  heading, vertical speed, a field whose encoding raises giving none; and on an
  encoder whose \<open>sdi\<close> is \<open>"00"\<close> the result is, in that order, the complete word
  (label, sdi, data, ssm, parity, timestamp) of every field whose value lies in the
  range of its encoder, and nothing for the other fields.
\<close>

theorem encode_flight_data_partial:
  "length (fst (encode_flight_data self fd)) \<le> 6 \<and>
   fst (encode_flight_data self fd) =
     concat (map (field_words (timestamp fd) self) (encodings fd)) \<and>
   (self_sdi self = ''00'' \<longrightarrow>
      fst (encode_flight_data self fd) =
        (if - 90 \<le> latitude fd \<and> latitude fd \<le> 90
         then [spec_word ''6A'' 0x6A 10000 True (latitude fd) (timestamp fd)] else []) @
        (if - 180 \<le> longitude fd \<and> longitude fd \<le> 180
         then [spec_word ''6B'' 0x6B 10000 True (longitude fd) (timestamp fd)] else []) @
        (if 0 \<le> altitude fd \<and> altitude fd \<le> 50000
         then [spec_word ''6C'' 0x6C 1 False (altitude fd) (timestamp fd)] else []) @
        (if 0 \<le> airspeed fd \<and> airspeed fd \<le> 1000
         then [spec_word ''6D'' 0x6D 10 False (airspeed fd) (timestamp fd)] else []) @
        (if 0 \<le> heading fd \<and> heading fd \<le> 360
         then [spec_word ''6E'' 0x6E 10 False (heading fd) (timestamp fd)] else []) @
        (if - 10000 \<le> vertical_speed fd \<and> vertical_speed fd \<le> 10000
         then [spec_word ''6F'' 0x6F 1 True (vertical_speed fd) (timestamp fd)] else [])) \<and>
   (self_sdi self = ''00'' \<longrightarrow>
      map label (fst (encode_flight_data self fd)) =
        (if - 90 \<le> latitude fd \<and> latitude fd \<le> 90 then [''6A''] else []) @
        (if - 180 \<le> longitude fd \<and> longitude fd \<le> 180 then [''6B''] else []) @
        (if 0 \<le> altitude fd \<and> altitude fd \<le> 50000 then [''6C''] else []) @
        (if 0 \<le> airspeed fd \<and> airspeed fd \<le> 1000 then [''6D''] else []) @
        (if 0 \<le> heading fd \<and> heading fd \<le> 360 then [''6E''] else []) @
        (if - 10000 \<le> vertical_speed fd \<and> vertical_speed fd \<le> 10000 then [''6F''] else []))"
proof (intro conjI impI)
  show "fst (encode_flight_data self fd) =
      concat (map (field_words (timestamp fd) self) (encodings fd))"
    by (rule encode_flight_data_fields)
  have "length (concat (map (field_words (timestamp fd) self) (encodings fd))) \<le> 6"
    using length_concat_field_words [of "timestamp fd" self "encodings fd"]
    by (simp add: encodings_def)
  then show "length (fst (encode_flight_data self fd)) \<le> 6"
    by (simp only: encode_flight_data_fields)
next
  assume sdi: "self_sdi self = ''00''"
  show "fst (encode_flight_data self fd) =
        (if - 90 \<le> latitude fd \<and> latitude fd \<le> 90
         then [spec_word ''6A'' 0x6A 10000 True (latitude fd) (timestamp fd)] else []) @
        (if - 180 \<le> longitude fd \<and> longitude fd \<le> 180
         then [spec_word ''6B'' 0x6B 10000 True (longitude fd) (timestamp fd)] else []) @
        (if 0 \<le> altitude fd \<and> altitude fd \<le> 50000
         then [spec_word ''6C'' 0x6C 1 False (altitude fd) (timestamp fd)] else []) @
        (if 0 \<le> airspeed fd \<and> airspeed fd \<le> 1000
         then [spec_word ''6D'' 0x6D 10 False (airspeed fd) (timestamp fd)] else []) @
        (if 0 \<le> heading fd \<and> heading fd \<le> 360
         then [spec_word ''6E'' 0x6E 10 False (heading fd) (timestamp fd)] else []) @
        (if - 10000 \<le> vertical_speed fd \<and> vertical_speed fd \<le> 10000
         then [spec_word ''6F'' 0x6F 1 True (vertical_speed fd) (timestamp fd)] else [])"
    by (simp only: encode_flight_data_fields encodings_def list.map concat.simps append_Nil2
        field_words_latitude_word [OF sdi] field_words_longitude_word [OF sdi]
        field_words_altitude_word [OF sdi] field_words_airspeed_word [OF sdi]
        field_words_heading_word [OF sdi] field_words_vertical_speed_word [OF sdi])
next
  assume sdi: "self_sdi self = ''00''"
  show "map label (fst (encode_flight_data self fd)) =
        (if - 90 \<le> latitude fd \<and> latitude fd \<le> 90 then [''6A''] else []) @
        (if - 180 \<le> longitude fd \<and> longitude fd \<le> 180 then [''6B''] else []) @
        (if 0 \<le> altitude fd \<and> altitude fd \<le> 50000 then [''6C''] else []) @
        (if 0 \<le> airspeed fd \<and> airspeed fd \<le> 1000 then [''6D''] else []) @
        (if 0 \<le> heading fd \<and> heading fd \<le> 360 then [''6E''] else []) @
        (if - 10000 \<le> vertical_speed fd \<and> vertical_speed fd \<le> 10000 then [''6F''] else [])"
    by (simp only: encode_flight_data_fields encodings_def list.map concat.simps map_append
        field_words_encodings [OF sdi] append_Nil2)
qed

text \<open>
  With the altitude out of range the words of the other five fields are returned,
  in order and complete.
\<close>

theorem encode_flight_data_partial_witness:
  "self_sdi ARINC429Encoder_init = ''00'' \<and>
   fst (encode_flight_data ARINC429Encoder_init fd_all_ones) =
     [\<lparr>label = ''6A'', sdi = ''00'', data = ''1111111111111111111'', ssm = ''00'',
        parity = ''0'', msg_timestamp = 7\<rparr>,
      \<lparr>label = ''6B'', sdi = ''00'', data = ''0000000000000000000'', ssm = ''00'',
        parity = ''0'', msg_timestamp = 7\<rparr>,
      \<lparr>label = ''6D'', sdi = ''00'', data = ''0000000000000000011'', ssm = ''00'',
        parity = ''0'', msg_timestamp = 7\<rparr>,
      \<lparr>label = ''6E'', sdi = ''00'', data = ''0000000111000010000'', ssm = ''00'',
        parity = ''0'', msg_timestamp = 7\<rparr>,
      \<lparr>label = ''6F'', sdi = ''00'', data = ''0000000000000000011'', ssm = ''11'',
        parity = ''1'', msg_timestamp = 7\<rparr>]"
proof -
  have h1: "self_sdi ARINC429Encoder_init = ''00''" by (simp add: ARINC429Encoder_init_def)
  have w: "spec_word ''6A'' 0x6A 10000 True (latitude fd_all_ones) 7 =
      \<lparr>label = ''6A'', sdi = ''00'', data = ''1111111111111111111'', ssm = ''00'',
        parity = ''0'', msg_timestamp = 7\<rparr>"
    "spec_word ''6B'' 0x6B 10000 True (longitude fd_all_ones) 7 =
      \<lparr>label = ''6B'', sdi = ''00'', data = ''0000000000000000000'', ssm = ''00'',
        parity = ''0'', msg_timestamp = 7\<rparr>"
    "spec_word ''6D'' 0x6D 10 False (airspeed fd_all_ones) 7 =
      \<lparr>label = ''6D'', sdi = ''00'', data = ''0000000000000000011'', ssm = ''00'',
        parity = ''0'', msg_timestamp = 7\<rparr>"
    "spec_word ''6E'' 0x6E 10 False (heading fd_all_ones) 7 =
      \<lparr>label = ''6E'', sdi = ''00'', data = ''0000000111000010000'', ssm = ''00'',
        parity = ''0'', msg_timestamp = 7\<rparr>"
    "spec_word ''6F'' 0x6F 1 True (vertical_speed fd_all_ones) 7 =
      \<lparr>label = ''6F'', sdi = ''00'', data = ''0000000000000000011'', ssm = ''11'',
        parity = ''1'', msg_timestamp = 7\<rparr>"
    by (simp_all add: spec_word_def Let_def fd_all_ones_def zfill_def bin_digits_numeral
        count_ones_def)
  have r: "- 90 \<le> latitude fd_all_ones \<and> latitude fd_all_ones \<le> 90"
    "- 180 \<le> longitude fd_all_ones \<and> longitude fd_all_ones \<le> 180"
    "\<not> (0 \<le> altitude fd_all_ones \<and> altitude fd_all_ones \<le> 50000)"
    "0 \<le> airspeed fd_all_ones \<and> airspeed fd_all_ones \<le> 1000"
    "0 \<le> heading fd_all_ones \<and> heading fd_all_ones \<le> 360"
    "- 10000 \<le> vertical_speed fd_all_ones \<and> vertical_speed fd_all_ones \<le> 10000"
    "timestamp fd_all_ones = 7"
    by (simp_all add: fd_all_ones_def)
  from encode_flight_data_partial [of ARINC429Encoder_init fd_all_ones,
      THEN conjunct2, THEN conjunct2, THEN conjunct1, rule_format, OF h1]
  have "fst (encode_flight_data ARINC429Encoder_init fd_all_ones) =
     [\<lparr>label = ''6A'', sdi = ''00'', data = ''1111111111111111111'', ssm = ''00'',
        parity = ''0'', msg_timestamp = 7\<rparr>,
      \<lparr>label = ''6B'', sdi = ''00'', data = ''0000000000000000000'', ssm = ''00'',
        parity = ''0'', msg_timestamp = 7\<rparr>,
      \<lparr>label = ''6D'', sdi = ''00'', data = ''0000000000000000011'', ssm = ''00'',
        parity = ''0'', msg_timestamp = 7\<rparr>,
      \<lparr>label = ''6E'', sdi = ''00'', data = ''0000000111000010000'', ssm = ''00'',
        parity = ''0'', msg_timestamp = 7\<rparr>,
      \<lparr>label = ''6F'', sdi = ''00'', data = ''0000000000000000011'', ssm = ''11'',
        parity = ''1'', msg_timestamp = 7\<rparr>]"
    by (simp only: r w if_True if_False append_Cons append_Nil simp_thms)
  with h1 show ?thesis by (intro conjI)
qed

section \<open>The decoder reads label, data and ssm only\<close>

text \<open>
  Claim C10. Two messages with the same label, data and ssm decode to the same
  result, whatever their parity, sdi and timestamp: no parity is verified.
\<close>

theorem decode_message_ignores_parity:
  assumes "label m1 = label m2" and "data m1 = data m2" and "ssm m1 = ssm m2"
  shows "decode_message m1 = decode_message m2"
  unfolding decode_message_def assms by (rule refl)

text \<open>
  Two such messages that differ in sdi, parity and timestamp. The parity of each is
  wrong for its other 31 bits (the right ones are \<open>"0"\<close> and \<open>"1"\<close>); both decode to
  -41.2622.
\<close>

theorem decode_message_ignores_parity_witness:
  "(let m1 = \<lparr>label = ''6A'', sdi = ''00'', data = ''1100100101111001110'', ssm = ''11'',
               parity = ''1'', msg_timestamp = 1\<rparr>;
        m2 = \<lparr>label = ''6A'', sdi = ''10'', data = ''1100100101111001110'', ssm = ''11'',
               parity = ''0'', msg_timestamp = 2\<rparr>
    in label m1 = label m2 \<and> data m1 = data m2 \<and> ssm m1 = ssm m2 \<and>
       decode_message m1 = decode_message m2 \<and>
       decode_message m2 = Inr (''latitude'', - 41.2622))"
proof -
  let ?m1 = "\<lparr>label = ''6A'', sdi = ''00'', data = ''1100100101111001110'', ssm = ''11'',
               parity = ''1'', msg_timestamp = 1\<rparr>"
  let ?m2 = "\<lparr>label = ''6A'', sdi = ''10'', data = ''1100100101111001110'', ssm = ''11'',
               parity = ''0'', msg_timestamp = 2\<rparr>"
  have "decode_message ?m1 = decode_message ?m2"
    by (rule decode_message_ignores_parity) simp_all
  moreover have "decode_message ?m2 = Inr (''latitude'', - 41.2622)"
    by (simp add: decode_message_def decoders_def decode_latitude_def int_base2_def bin_val_def)
  ultimately show ?thesis by (simp add: Let_def)
qed

section \<open>The example latitude\<close>

text \<open>
  Claim C4, as amended. Encoding the latitude -41.2622 sets ssm to \<open>"11"\<close>; the data
  is \<open>int(41.2622 * 10000) = 412622\<close> in 19 binary digits, which is
  \<open>1100100101111001110\<close>; the parity over label \<open>6A\<close>, sdi \<open>00\<close>, this data and ssm
  \<open>11\<close> is \<open>"0"\<close>, and the 32-character word has an odd number of ones.
\<close>

theorem encode_latitude_example:
  "encode_latitude ARINC429Encoder_init (- 41.2622) =
     Inr (''1100100101111001110'', \<lparr>self_sdi = ''00'', self_ssm = ''11''\<rparr>) \<and>
   py_int (41.2622 * 10000) = 412622 \<and>
   format_b 19 (412622 AND 0x7FFFF) = ''1100100101111001110'' \<and>
   calculate_parity ''6A'' ''00'' ''1100100101111001110'' ''11'' = Inr ''0'' \<and>
   validate_arinc429_word (create_arinc429_word 0x6A ''00'' ''1100100101111001110'' ''11'' ''0'')"
  by (simp add: codec_eval validate_arinc429_word_def create_arinc429_word_def)

text \<open>
  The data string is not the \<open>0110010101001001110\<close> of the specification, which is
  207438 and not 412622.
\<close>

theorem encode_latitude_example_counterexample:
  "map_sum id fst (encode_latitude ARINC429Encoder_init (- 41.2622)) \<noteq> Inr ''0110010101001001110'' \<and>
   format_b 19 (412622 AND 0x7FFFF) \<noteq> ''0110010101001001110''"
  by (simp add: codec_eval)

section \<open>Round trip through the encoder and the decoder\<close>

text \<open>
  Where the scaled magnitude fits 19 bits the decoder returns the value to within
  one step: over the whole range of altitude, airspeed, heading and vertical speed,
  and for a latitude or longitude of magnitude below 52.4288.
\<close>

lemma int_base2_format_b:
  assumes "0 \<le> n" and "n < 2 ^ 19"
  shows "int_base2 (format_b 19 (n AND 0x7FFFF)) = Inr n"
proof -
  from assms have m: "n mod 2 ^ 19 = n" by simp
  have "\<not> n < 0" using assms(1) by simp
  then have "format_b 19 (n AND 0x7FFFF) = zfill 19 (bin_digits (nat n))"
    by (simp only: and_mask19 m format_b_def if_False)
  then show ?thesis using assms(1) by (simp add: int_base2_zfill)
qed

lemma scaled_round_trip:
  fixes y :: real
  assumes "0 \<le> y" and "y < 2 ^ 19"
  shows "int_base2 (format_b 19 (py_int y AND 0x7FFFF)) = Inr \<lfloor>y\<rfloor>"
proof -
  have p: "py_int y = \<lfloor>y\<rfloor>" using assms(1) by (simp add: py_int_def)
  have "0 \<le> \<lfloor>y\<rfloor>" using assms(1) by simp
  moreover have "\<lfloor>y\<rfloor> < 2 ^ 19" using assms(2) by (simp add: floor_less_iff)
  ultimately show ?thesis unfolding p by (rule int_base2_format_b)
qed

lemma floor_scaled_error:
  fixes v :: real
  assumes "0 < k"
  shows "\<bar>real_of_int \<lfloor>v * k\<rfloor> / k - v\<bar> < 1 / k"
proof -
  have "real_of_int \<lfloor>v * k\<rfloor> \<le> v * k" "v * k < real_of_int \<lfloor>v * k\<rfloor> + 1" by linarith+
  then have "real_of_int \<lfloor>v * k\<rfloor> / k \<le> v" "v < real_of_int \<lfloor>v * k\<rfloor> / k + 1 / k"
    using assms by (simp_all add: field_simps)
  then show ?thesis by linarith
qed

lemma altitude_round_trip:
  assumes "0 \<le> v" and "v \<le> 50000"
  shows "\<exists>db s' x. encode_altitude self v = Inr (db, s') \<and>
           decode_altitude db (self_ssm s') = Inr x \<and> \<bar>x - v\<bar> < 1"
proof -
  let ?db = "format_b 19 (py_int (v) AND 0x7FFFF)"
  have "0 \<le> v" "v < 2 ^ 19" using assms by simp_all
  then have val: "int_base2 ?db = Inr \<lfloor>v\<rfloor>" by (rule scaled_round_trip)
  have enc: "encode_altitude self v = Inr (?db, self\<lparr>self_ssm := ''00''\<rparr>)"
    using assms by (simp add: encode_altitude_def Let_def)
  have dec: "decode_altitude ?db (self_ssm (self\<lparr>self_ssm := ''00''\<rparr>)) =
      Inr (real_of_int \<lfloor>v\<rfloor>)"
    unfolding decode_altitude_def val by simp
  have "\<bar>real_of_int \<lfloor>v * 1\<rfloor> / 1 - v\<bar> < 1 / 1"
    by (rule floor_scaled_error) simp
  then have err: "\<bar>real_of_int \<lfloor>v\<rfloor> - v\<bar> < 1" by simp
  from enc dec err show ?thesis by blast
qed

lemma airspeed_round_trip:
  assumes "0 \<le> v" and "v \<le> 1000"
  shows "\<exists>db s' x. encode_airspeed self v = Inr (db, s') \<and>
           decode_airspeed db (self_ssm s') = Inr x \<and> \<bar>x - v\<bar> < 0.1"
proof -
  let ?db = "format_b 19 (py_int (v * 10) AND 0x7FFFF)"
  have "0 \<le> v * 10" "v * 10 < 2 ^ 19" using assms by simp_all
  then have val: "int_base2 ?db = Inr \<lfloor>v * 10\<rfloor>" by (rule scaled_round_trip)
  have enc: "encode_airspeed self v = Inr (?db, self\<lparr>self_ssm := ''00''\<rparr>)"
    using assms by (simp add: encode_airspeed_def Let_def)
  have dec: "decode_airspeed ?db (self_ssm (self\<lparr>self_ssm := ''00''\<rparr>)) =
      Inr (real_of_int \<lfloor>v * 10\<rfloor> / 10)"
    unfolding decode_airspeed_def val by simp
  have "\<bar>real_of_int \<lfloor>v * 10\<rfloor> / 10 - v\<bar> < 1 / 10"
    by (rule floor_scaled_error) simp
  then have err: "\<bar>real_of_int \<lfloor>v * 10\<rfloor> / 10 - v\<bar> < 0.1" by simp
  from enc dec err show ?thesis by blast
qed

lemma heading_round_trip:
  assumes "0 \<le> v" and "v \<le> 360"
  shows "\<exists>db s' x. encode_heading self v = Inr (db, s') \<and>
           decode_heading db (self_ssm s') = Inr x \<and> \<bar>x - v\<bar> < 0.1"
proof -
  let ?db = "format_b 19 (py_int (v * 10) AND 0x7FFFF)"
  have "0 \<le> v * 10" "v * 10 < 2 ^ 19" using assms by simp_all
  then have val: "int_base2 ?db = Inr \<lfloor>v * 10\<rfloor>" by (rule scaled_round_trip)
  have enc: "encode_heading self v = Inr (?db, self\<lparr>self_ssm := ''00''\<rparr>)"
    using assms by (simp add: encode_heading_def Let_def)
  have dec: "decode_heading ?db (self_ssm (self\<lparr>self_ssm := ''00''\<rparr>)) =
      Inr (real_of_int \<lfloor>v * 10\<rfloor> / 10)"
    unfolding decode_heading_def val by simp
  have "\<bar>real_of_int \<lfloor>v * 10\<rfloor> / 10 - v\<bar> < 1 / 10"
    by (rule floor_scaled_error) simp
  then have err: "\<bar>real_of_int \<lfloor>v * 10\<rfloor> / 10 - v\<bar> < 0.1" by simp
  from enc dec err show ?thesis by blast
qed

lemma vertical_speed_round_trip:
  assumes "- 10000 \<le> v" and "v \<le> 10000"
  shows "\<exists>db s' x. encode_vertical_speed self v = Inr (db, s') \<and>
           decode_vertical_speed db (self_ssm s') = Inr x \<and> \<bar>x - v\<bar> < 1"
proof -
  let ?db = "format_b 19 (py_int (\<bar>v\<bar>) AND 0x7FFFF)"
  let ?x = "real_of_int \<lfloor>\<bar>v\<bar>\<rfloor>"
  have "0 \<le> \<bar>v\<bar>" "\<bar>v\<bar> < 2 ^ 19" using assms by simp_all
  then have val: "int_base2 ?db = Inr \<lfloor>\<bar>v\<bar>\<rfloor>" by (rule scaled_round_trip)
  have "\<bar>real_of_int \<lfloor>\<bar>v\<bar> * 1\<rfloor> / 1 - \<bar>v\<bar>\<bar> < 1 / 1"
    by (rule floor_scaled_error) simp
  then have err: "\<bar>?x - \<bar>v\<bar>\<bar> < 1" by simp
  show ?thesis
  proof (cases "0 \<le> v")
    case True
    have enc: "encode_vertical_speed self v = Inr (?db, self\<lparr>self_ssm := ''00''\<rparr>)"
      using assms True by (simp add: encode_vertical_speed_def)
    have dec: "decode_vertical_speed ?db (self_ssm (self\<lparr>self_ssm := ''00''\<rparr>)) = Inr ?x"
      unfolding decode_vertical_speed_def val by simp
    have "?x - v = ?x - \<bar>v\<bar>" using True by linarith
    with err have "\<bar>?x - v\<bar> < 1" by (simp only:)
    with enc dec show ?thesis by blast
  next
    case False
    have enc: "encode_vertical_speed self v = Inr (?db, self\<lparr>self_ssm := ''11''\<rparr>)"
      using assms False by (simp add: encode_vertical_speed_def)
    have dec: "decode_vertical_speed ?db (self_ssm (self\<lparr>self_ssm := ''11''\<rparr>)) = Inr (- ?x)"
      unfolding decode_vertical_speed_def val by simp
    have "- ?x - v = - (?x - \<bar>v\<bar>)" using False by linarith
    then have "\<bar>- ?x - v\<bar> = \<bar>?x - \<bar>v\<bar>\<bar>" by (simp only: abs_minus)
    with err have "\<bar>- ?x - v\<bar> < 1" by (simp only:)
    with enc dec show ?thesis by blast
  qed
qed

lemma latitude_round_trip_below_wrap:
  assumes "\<bar>v\<bar> < 52.4288"
  shows "\<exists>db s' x. encode_latitude self v = Inr (db, s') \<and>
           decode_latitude db (self_ssm s') = Inr x \<and> \<bar>x - v\<bar> < 0.0001"
proof -
  let ?db = "format_b 19 (py_int (\<bar>v\<bar> * 10000) AND 0x7FFFF)"
  let ?x = "real_of_int \<lfloor>\<bar>v\<bar> * 10000\<rfloor> / 10000"
  have "0 \<le> \<bar>v\<bar> * 10000" "\<bar>v\<bar> * 10000 < 2 ^ 19" using assms by simp_all
  then have val: "int_base2 ?db = Inr \<lfloor>\<bar>v\<bar> * 10000\<rfloor>" by (rule scaled_round_trip)
  have "\<bar>real_of_int \<lfloor>\<bar>v\<bar> * 10000\<rfloor> / 10000 - \<bar>v\<bar>\<bar> < 1 / 10000"
    by (rule floor_scaled_error) simp
  then have err: "\<bar>?x - \<bar>v\<bar>\<bar> < 0.0001" by simp
  show ?thesis
  proof (cases "0 \<le> v")
    case True
    have enc: "encode_latitude self v = Inr (?db, self\<lparr>self_ssm := ''00''\<rparr>)"
      using assms True by (simp add: encode_latitude_def)
    have dec: "decode_latitude ?db (self_ssm (self\<lparr>self_ssm := ''00''\<rparr>)) = Inr ?x"
      unfolding decode_latitude_def val by simp
    have "?x - v = ?x - \<bar>v\<bar>" using True by linarith
    with err have "\<bar>?x - v\<bar> < 0.0001" by (simp only:)
    with enc dec show ?thesis by blast
  next
    case False
    have enc: "encode_latitude self v = Inr (?db, self\<lparr>self_ssm := ''11''\<rparr>)"
      using assms False by (simp add: encode_latitude_def)
    have dec: "decode_latitude ?db (self_ssm (self\<lparr>self_ssm := ''11''\<rparr>)) = Inr (- ?x)"
      unfolding decode_latitude_def val by simp
    have "- ?x - v = - (?x - \<bar>v\<bar>)" using False by linarith
    then have "\<bar>- ?x - v\<bar> = \<bar>?x - \<bar>v\<bar>\<bar>" by (simp only: abs_minus)
    with err have "\<bar>- ?x - v\<bar> < 0.0001" by (simp only:)
    with enc dec show ?thesis by blast
  qed
qed

lemma longitude_round_trip_below_wrap:
  assumes "\<bar>v\<bar> < 52.4288"
  shows "\<exists>db s' x. encode_longitude self v = Inr (db, s') \<and>
           decode_longitude db (self_ssm s') = Inr x \<and> \<bar>x - v\<bar> < 0.0001"
proof -
  let ?db = "format_b 19 (py_int (\<bar>v\<bar> * 10000) AND 0x7FFFF)"
  let ?x = "real_of_int \<lfloor>\<bar>v\<bar> * 10000\<rfloor> / 10000"
  have "0 \<le> \<bar>v\<bar> * 10000" "\<bar>v\<bar> * 10000 < 2 ^ 19" using assms by simp_all
  then have val: "int_base2 ?db = Inr \<lfloor>\<bar>v\<bar> * 10000\<rfloor>" by (rule scaled_round_trip)
  have "\<bar>real_of_int \<lfloor>\<bar>v\<bar> * 10000\<rfloor> / 10000 - \<bar>v\<bar>\<bar> < 1 / 10000"
    by (rule floor_scaled_error) simp
  then have err: "\<bar>?x - \<bar>v\<bar>\<bar> < 0.0001" by simp
  show ?thesis
  proof (cases "0 \<le> v")
    case True
    have enc: "encode_longitude self v = Inr (?db, self\<lparr>self_ssm := ''00''\<rparr>)"
      using assms True by (simp add: encode_longitude_def)
    have dec: "decode_longitude ?db (self_ssm (self\<lparr>self_ssm := ''00''\<rparr>)) = Inr ?x"
      unfolding decode_longitude_def val by simp
    have "?x - v = ?x - \<bar>v\<bar>" using True by linarith
    with err have "\<bar>?x - v\<bar> < 0.0001" by (simp only:)
    with enc dec show ?thesis by blast
  next
    case False
    have enc: "encode_longitude self v = Inr (?db, self\<lparr>self_ssm := ''11''\<rparr>)"
      using assms False by (simp add: encode_longitude_def)
    have dec: "decode_longitude ?db (self_ssm (self\<lparr>self_ssm := ''11''\<rparr>)) = Inr (- ?x)"
      unfolding decode_longitude_def val by simp
    have "- ?x - v = - (?x - \<bar>v\<bar>)" using False by linarith
    then have "\<bar>- ?x - v\<bar> = \<bar>?x - \<bar>v\<bar>\<bar>" by (simp only: abs_minus)
    with err have "\<bar>- ?x - v\<bar> < 0.0001" by (simp only:)
    with enc dec show ?thesis by blast
  qed
qed


text \<open>
  Claim C1, at the latitude 60. The scaled value 600000 does not fit 19 bits: the
  mask leaves 75712, the word of the latitude carries that, and decoding it gives
  7.5712, which is not within 0.0001 of 60.
\<close>

theorem latitude_60_round_trip:
  "encode_latitude ARINC429Encoder_init 60 =
     Inr (''0010010011111000000'', \<lparr>self_sdi = ''00'', self_ssm = ''00''\<rparr>) \<and>
   field_words 0 ARINC429Encoder_init (''latitude'', 60, encode_latitude) =
     [\<lparr>label = ''6A'', sdi = ''00'', data = ''0010010011111000000'', ssm = ''00'', parity = ''0'',
       msg_timestamp = 0\<rparr>] \<and>
   decode_message \<lparr>label = ''6A'', sdi = ''00'', data = ''0010010011111000000'', ssm = ''00'',
       parity = ''0'', msg_timestamp = 0\<rparr> = Inr (''latitude'', 7.5712) \<and>
   \<not> \<bar>60 - 7.5712\<bar> \<le> (0.0001 :: real)"
  by (simp add: codec_eval decode_message_def decoders_def decode_latitude_def)

section \<open>Removing a sink\<close>

text \<open>An index inside the registry removes that sink; any other raises status 500.\<close>

lemma remove_external_config_in_range:
  assumes "0 \<le> index" and "index < int (length (external_configs self))"
  shows "remove_external_config index self =
     (Inr [(''status'', ''success''), (''message'', ''Konfigurasyon kaldirildi'')],
      self\<lparr>external_configs :=
             take (nat index) (external_configs self) @
             drop (Suc (nat index)) (external_configs self)\<rparr>)"
  using assms by (simp add: remove_external_config_def remove_external_config_try_def pop_def)

lemma remove_external_config_not_found:
  assumes "\<not> (0 \<le> index \<and> index < int (length (external_configs self)))"
  shows "remove_external_config index self =
     (Inl (HTTPException 500 (Str (HTTPException 404 (Text ''Konfigurasyon bulunamadi'')))), self)"
  using assms by (simp add: remove_external_config_def remove_external_config_try_def)

text \<open>
  Claim C9, at the indices 5 and -1 of a registry of one sink. The registry is
  unchanged, and the exception that leaves the handler has status 500: the 404 raised
  in the handler is caught by its own \<open>except\<close> clause.
\<close>

theorem remove_external_config_out_of_range:
  "remove_external_config 5 server1 =
     (Inl (HTTPException 500 (Str (HTTPException 404 (Text ''Konfigurasyon bulunamadi'')))), server1) \<and>
   remove_external_config (- 1) server1 =
     (Inl (HTTPException 500 (Str (HTTPException 404 (Text ''Konfigurasyon bulunamadi'')))), server1)"
  by (simp add: remove_external_config_def remove_external_config_try_def server1_def)

section \<open>The history with a limit\<close>

text \<open>Without a limit the whole history is returned, with a positive limit its last samples.\<close>

lemma get_history_None: "get_history g None = history g"
  by (simp add: get_history_def)

lemma get_history_positive:
  assumes "0 < l"
  shows "get_history g (Some l) = drop (length (history g) - nat l) (history g)"
    and "length (get_history g (Some l)) = min (nat l) (length (history g))"
  using assms by (auto simp: get_history_def slice_from_def Let_def nat_diff_distrib' max_def)

text \<open>
  Claim C8, at the limit 0 on a new generator. \<open>history[-0:]\<close> is the whole history:
  one sample is returned, not none.
\<close>

theorem get_history_limit_zero:
  "get_history (FlightDataGenerator_init 1 0) (Some 0) = history (FlightDataGenerator_init 1 0) \<and>
   length (get_history (FlightDataGenerator_init 1 0) (Some 0)) = 1"
  by (simp add: get_history_def slice_from_def FlightDataGenerator_init_def Let_def)

section \<open>Fan-out with one failing subscriber\<close>

lemma send_loop_result:
  "send_loop send_fails message conns sent disconnected =
     (sent @ map (\<lambda>w. (w, message)) (filter (\<lambda>w. \<not> send_fails w) conns),
      disconnected @ filter send_fails conns)"
  by (induction conns arbitrary: sent disconnected) simp_all

lemma filter_eq_replicate: "filter (\<lambda>w. w = c) xs = replicate (count_list xs c) c"
  by (induction xs) simp_all

lemma remove1_once: "count_list xs c = 1 \<Longrightarrow> remove1 c xs = filter (\<lambda>w. w \<noteq> c) xs"
proof (induction xs)
  case Nil
  then show ?case by simp
next
  case (Cons x xs)
  show ?case
  proof (cases "x = c")
    case True
    with Cons.prems have "count_list xs c = 0" by simp
    then have "c \<notin> set xs" by (simp add: count_list_0_iff)
    then have "filter (\<lambda>w. w \<noteq> c) xs = xs" by (auto simp: filter_id_conv)
    with True show ?thesis by simp
  next
    case False
    with Cons show ?thesis by simp
  qed
qed

text \<open>
  Claim C6. When exactly one registered subscriber \<open>c\<close> fails on send and it is
  registered once, \<open>broadcast_data\<close> sends the text to every other subscriber, in
  order, removes \<open>c\<close> from the registry and leaves every other one, and the
  registry is shorter by exactly one.
\<close>

theorem broadcast_data_isolates_failure:
  assumes once: "count_list (active_connections self) c = 1"
    and fails: "\<forall>w\<in>set (active_connections self). send_fails w \<longleftrightarrow> w = c"
  shows "case broadcast_data json_dumps send_fails data_v (self, sent) of
           (self', sent') \<Rightarrow>
             sent' = sent @ map (\<lambda>w. (w, json_dumps data_v))
                       (filter (\<lambda>w. w \<noteq> c) (active_connections self)) \<and>
             active_connections self' = filter (\<lambda>w. w \<noteq> c) (active_connections self) \<and>
             c \<notin> set (active_connections self') \<and>
             Suc (length (active_connections self')) = length (active_connections self)"
proof -
  let ?conns = "active_connections self"
  from once have mem: "c \<in> set ?conns"
    using count_list_0_iff [of ?conns c] by auto
  then have ne: "?conns \<noteq> []" by auto
  from fails have f1: "filter send_fails ?conns = filter (\<lambda>w. w = c) ?conns"
    by (intro filter_cong) auto
  from fails have f2: "filter (\<lambda>w. \<not> send_fails w) ?conns = filter (\<lambda>w. w \<noteq> c) ?conns"
    by (intro filter_cong) auto
  have disc: "filter send_fails ?conns = [c]"
    by (simp add: f1 filter_eq_replicate once)
  have act: "active_connections (disconnect_websocket c self) = filter (\<lambda>w. w \<noteq> c) ?conns"
    using mem by (simp add: disconnect_websocket_def remove1_once [OF once])
  have len: "Suc (length (remove1 c ?conns)) = length ?conns"
    using mem ne by (simp add: length_remove1)
  have "broadcast_data json_dumps send_fails data_v (self, sent) =
      (disconnect_websocket c self,
       sent @ map (\<lambda>w. (w, json_dumps data_v)) (filter (\<lambda>w. w \<noteq> c) ?conns))"
    using ne by (simp add: broadcast_data_def send_loop_result disc f2)
  then show ?thesis
    using act len remove1_once [OF once] by simp
qed

text \<open>Three subscribers, the second failing.\<close>

theorem broadcast_data_isolates_failure_witness:
  "count_list [1, 2, 3 :: WebSocket] 2 = 1 \<and>
   (case broadcast_data (\<lambda>d. d) (\<lambda>w. w = 2) ''tick''
           (server1\<lparr>active_connections := [1, 2, 3]\<rparr>, []) of
      (self', sent') \<Rightarrow>
        sent' = [(1, ''tick''), (3, ''tick'')] \<and> active_connections self' = [1, 3] \<and>
        length (active_connections self') = 2)"
proof -
  let ?s = "server1\<lparr>active_connections := [1, 2, 3]\<rparr>"
  have h1: "count_list (active_connections ?s) 2 = 1" by simp
  have h2: "\<forall>w\<in>set (active_connections ?s). (w = 2) \<longleftrightarrow> w = 2" by simp
  from broadcast_data_isolates_failure [OF h1 h2, where json_dumps = "\<lambda>d. d"
      and data_v = "''tick''" and sent = "[]"]
  show ?thesis by (simp split: prod.splits)
qed

section \<open>The envelope of the samples\<close>

lemma clamp_lower: "fst (AVIATION_RANGES k) \<le> clamp k x"
  by (cases k) (simp_all add: clamp_def)

lemma clamp_upper: "clamp k x \<le> snd (AVIATION_RANGES k)"
  by (cases k; simp add: clamp_def)

lemmas clamp_bounds = clamp_lower clamp_upper

lemma round_half_even_bounds:
  assumes "of_int a \<le> y" and "y \<le> of_int b"
  shows "a \<le> round_half_even y" and "round_half_even y \<le> b"
proof -
  let ?f = "\<lfloor>y\<rfloor>"
  from assms(1) have af: "a \<le> ?f" by (simp add: le_floor_iff)
  from assms(2) have fb: "?f \<le> b" by (simp add: floor_le_iff)
  have lo: "?f \<le> round_half_even y" by (simp add: round_half_even_def Let_def)
  from af lo show "a \<le> round_half_even y" by linarith
  show "round_half_even y \<le> b"
  proof (cases "?f = b")
    case True
    with assms(2) have "y - of_int ?f \<le> 0" by simp
    then have "y - of_int ?f < 1 / 2" by linarith
    then have "round_half_even y = ?f" by (simp add: round_half_even_def Let_def)
    with True show ?thesis by simp
  next
    case False
    with fb have "?f + 1 \<le> b" by linarith
    moreover have "round_half_even y \<le> ?f + 1" by (simp add: round_half_even_def Let_def)
    ultimately show ?thesis by linarith
  qed
qed

lemma py_round_bounds:
  assumes "of_int a \<le> x * 10 ^ n" and "x * 10 ^ n \<le> of_int b"
  shows "of_int a / 10 ^ n \<le> py_round x n" and "py_round x n \<le> of_int b / 10 ^ n"
  using round_half_even_bounds [OF assms]
  by (simp_all add: py_round_def divide_right_mono)

lemma py_round_clamp:
  "- 90 \<le> py_round (clamp K_latitude x) 6" "py_round (clamp K_latitude x) 6 \<le> 90"
  "- 180 \<le> py_round (clamp K_longitude x) 6" "py_round (clamp K_longitude x) 6 \<le> 180"
  "0 \<le> py_round (clamp K_altitude x) 1" "py_round (clamp K_altitude x) 1 \<le> 50000"
  "0 \<le> py_round (clamp K_airspeed x) 1" "py_round (clamp K_airspeed x) 1 \<le> 1000"
  "0 \<le> py_round (clamp K_heading x) 1" "py_round (clamp K_heading x) 1 \<le> 360"
  "- 10000 \<le> py_round (clamp K_vertical_speed x) 1"
  "py_round (clamp K_vertical_speed x) 1 \<le> 10000"
proof -
  note b = clamp_bounds [of K_latitude x] clamp_bounds [of K_longitude x]
    clamp_bounds [of K_altitude x] clamp_bounds [of K_airspeed x]
    clamp_bounds [of K_heading x] clamp_bounds [of K_vertical_speed x]
  show "- 90 \<le> py_round (clamp K_latitude x) 6" "py_round (clamp K_latitude x) 6 \<le> 90"
    using py_round_bounds [of "- 90000000" "clamp K_latitude x" 6 90000000] b by simp_all
  show "- 180 \<le> py_round (clamp K_longitude x) 6" "py_round (clamp K_longitude x) 6 \<le> 180"
    using py_round_bounds [of "- 180000000" "clamp K_longitude x" 6 180000000] b by simp_all
  show "0 \<le> py_round (clamp K_altitude x) 1" "py_round (clamp K_altitude x) 1 \<le> 50000"
    using py_round_bounds [of 0 "clamp K_altitude x" 1 500000] b by simp_all
  show "0 \<le> py_round (clamp K_airspeed x) 1" "py_round (clamp K_airspeed x) 1 \<le> 1000"
    using py_round_bounds [of 0 "clamp K_airspeed x" 1 10000] b by simp_all
  show "0 \<le> py_round (clamp K_heading x) 1" "py_round (clamp K_heading x) 1 \<le> 360"
    using py_round_bounds [of 0 "clamp K_heading x" 1 3600] b by simp_all
  show "- 10000 \<le> py_round (clamp K_vertical_speed x) 1"
    "py_round (clamp K_vertical_speed x) 1 \<le> 10000"
    using py_round_bounds [of "- 100000" "clamp K_vertical_speed x" 1 100000] b by simp_all
qed

lemma in_envelope_sample_of: "in_envelope (sample_of (apply_boundaries g) now)"
  unfolding in_envelope_def sample_of_def apply_boundaries_def
  using py_round_clamp(1,2) [of "current_latitude g"] py_round_clamp(3,4) [of "current_longitude g"]
    py_round_clamp(5,6) [of "current_altitude g"] py_round_clamp(7,8) [of "current_airspeed g"]
    py_round_clamp(9,10) [of "current_heading g"]
    py_round_clamp(11,12) [of "current_vertical_speed g"]
  by simp

lemma FlightData_new_sample_of:
  "FlightData_new (py_round (current_latitude (apply_boundaries g)) 6)
     (py_round (current_longitude (apply_boundaries g)) 6)
     (py_round (current_altitude (apply_boundaries g)) 1)
     (py_round (current_airspeed (apply_boundaries g)) 1)
     (py_round (current_heading (apply_boundaries g)) 1)
     (py_round (current_vertical_speed (apply_boundaries g)) 1) now =
   Inr (sample_of (apply_boundaries g) now)"
  using in_envelope_sample_of [of g now]
  by (simp add: FlightData_new_def sample_of_def in_envelope_def)

lemma apply_boundaries_frame:
  "history (apply_boundaries g) = history g" "max_history (apply_boundaries g) = max_history g"
  by (simp_all add: apply_boundaries_def)

lemma add_realistic_variations_frame:
  "history (add_realistic_variations u g) = history g"
  "max_history (add_realistic_variations u g) = max_history g"
  by (simp_all add: add_realistic_variations_def Let_def)

lemma update_position_frame:
  "history (snd (update_position g)) = history g"
  "max_history (snd (update_position g)) = max_history g"
  "fst (update_position g) = Inl e \<Longrightarrow> e = ZeroDivisionError"
  by (simp_all add: update_position_def Let_def apply_boundaries_def split: if_splits)

lemma generate_flight_data_cases:
  obtains (raise) g1 where "generate_flight_data u now g = (Inl ZeroDivisionError, g1)"
      and "update_position g = (Inl ZeroDivisionError, g1)"
      and "history g1 = history g" and "max_history g1 = max_history g"
  | (sample) g1 g' where "update_position g = (Inr (), g1)"
      and "generate_flight_data u now g =
             (Inr (sample_of (apply_boundaries (add_realistic_variations u g1)) now), g')"
      and "history g' =
             push_history (max_history g) (history g)
               (sample_of (apply_boundaries (add_realistic_variations u g1)) now)"
      and "max_history g' = max_history g"
proof -
  obtain r g1 where up: "update_position g = (r, g1)" by (cases "update_position g")
  from update_position_frame [of g] up
  have fr: "history g1 = history g" "max_history g1 = max_history g"
    and er: "\<And>e. r = Inl e \<Longrightarrow> e = ZeroDivisionError"
    by simp_all
  show thesis
  proof (cases r)
    case (Inl e)
    with er have e: "r = Inl ZeroDivisionError" by simp
    have gen: "generate_flight_data u now g = (Inl ZeroDivisionError, g1)"
      by (simp add: generate_flight_data_def up e)
    from up e have upe: "update_position g = (Inl ZeroDivisionError, g1)" by simp
    show thesis by (rule raise [OF gen upe fr])
  next
    case (Inr x)
    let ?g2 = "apply_boundaries (add_realistic_variations u g1)"
    let ?d = "sample_of ?g2 now"
    let ?g3 = "?g2\<lparr>history := history ?g2 @ [?d], current_data := Some ?d\<rparr>"
    let ?g4 = "if int (length (history ?g3)) > max_history ?g3
               then ?g3\<lparr>history := tl (history ?g3)\<rparr> else ?g3"
    have gen: "generate_flight_data u now g = (Inr ?d, ?g4)"
      by (simp add: generate_flight_data_def up Inr FlightData_new_sample_of [simplified] Let_def)
    have h: "history ?g4 = push_history (max_history g) (history g) ?d"
      by (simp add: push_history_def apply_boundaries_frame add_realistic_variations_frame fr)
    have m: "max_history ?g4 = max_history g"
      by (simp add: apply_boundaries_frame add_realistic_variations_frame fr)
    from up Inr have "update_position g = (Inr (), g1)" by simp
    then show thesis using gen h m by (rule sample)
  qed
qed

text \<open>
  Claim C3, as amended. Whatever the generator state (any rates, set by
  \<open>set_flight_parameters\<close> or not) and whatever the random draws, every sample a
  sequence of calls produces has latitude in [-90, 90], longitude in [-180, 180],
  altitude in [0, 50000], airspeed in [0, 1000], heading in [0, 360] with 360
  included, and vertical speed in [-10000, 10000]; and a call of
  \<open>generate_flight_data\<close> that produces no sample raised on the zero divisor, never on
  the validation of the sample.
\<close>

theorem samples_within_envelope:
  "list_all in_envelope (fst (run cs g)) \<and>
   (case generate_flight_data u now g of
      (Inl e, g') \<Rightarrow> e = ZeroDivisionError
    | (Inr d, g') \<Rightarrow> in_envelope d)"
proof
  show "list_all in_envelope (fst (run cs g))"
  proof (induction cs arbitrary: g)
    case Nil
    show ?case by simp
  next
    case (Cons c cs)
    show ?case
    proof (cases c)
      case (Generate u' now')
      show ?thesis
      proof (cases u' now' g rule: generate_flight_data_cases)
        case (raise g1)
        with Cons.IH [of g1] Generate show ?thesis by simp
      next
        case (sample g1 g')
        obtain ds g'' where r: "run cs g' = (ds, g'')" by (cases "run cs g'")
        with Cons.IH [of g'] have "list_all in_envelope ds" by simp
        with sample(2) Generate r in_envelope_sample_of show ?thesis by simp
      qed
    next
      case (Set_flight_parameters h a s)
      with Cons.IH show ?thesis by simp
    next
      case (Reset_position lat lon)
      with Cons.IH show ?thesis by simp
    qed
  qed
  show "case generate_flight_data u now g of
      (Inl e, g') \<Rightarrow> e = ZeroDivisionError
    | (Inr d, g') \<Rightarrow> in_envelope d"
    by (cases u now g rule: generate_flight_data_cases) (simp_all add: in_envelope_sample_of)
qed

lemma cos_radians_270: "cos (radians 270) = 0"
proof -
  have "radians 270 = 3 / 2 * pi" by (simp add: radians_def)
  then show ?thesis by (simp only: cos_3over2_pi)
qed

lemma cos_radians_nonzero: "- 90 < x \<Longrightarrow> x < 90 \<Longrightarrow> cos (radians x) \<noteq> 0"
proof -
  assume a: "- 90 < x" "x < 90"
  have "- 90 * (pi / 180) < x * (pi / 180)" "x * (pi / 180) < 90 * (pi / 180)"
    using a pi_gt_zero by (simp_all only: mult_strict_right_mono divide_pos_pos zero_less_numeral)
  then have "- (pi / 2) < radians x" "radians x < pi / 2"
    by (simp_all add: radians_def)
  then have "0 < cos (radians x)" by (rule cos_gt_zero_pi)
  then show ?thesis by simp
qed

lemma update_position_turning:
  "\<exists>g1. update_position (set_flight_parameters 1000 0 0 (FlightDataGenerator_init 1 0)) = (Inr (), g1)
     \<and> current_heading g1 = 360"
  by (simp add: update_position_def Let_def set_flight_parameters_def FlightDataGenerator_init_def
      cos_radians_270 cos_radians_nonzero apply_boundaries_def clamp_def)

lemma py_round_360: "py_round 360 1 = 360"
  by (simp add: py_round_def round_half_even_def)

text \<open>
  With the heading rate set to 1000 the heading of the first sample is 360: the
  wrap subtracts 360 once, the clamp cuts 910 to 360. This is outside [0, 360).
\<close>

theorem samples_within_envelope_counterexample:
  "\<not> list_all in_envelope_spec
       (fst (run [Set_flight_parameters 1000 0 0, Generate zero_variations 5]
               (FlightDataGenerator_init 1 0)))"
proof -
  let ?g = "set_flight_parameters 1000 0 0 (FlightDataGenerator_init 1 0)"
  from update_position_turning obtain g1 where up: "update_position ?g = (Inr (), g1)"
    and h: "current_heading g1 = 360" by blast
  let ?d = "sample_of (apply_boundaries (add_realistic_variations zero_variations g1)) 5"
  have hd: "heading ?d = 360"
    using py_round_360
    by (simp add: sample_of_def apply_boundaries_def add_realistic_variations_def
        zero_variations_def clamp_def h Let_def)
  obtain g' where gen: "generate_flight_data zero_variations 5 ?g = (Inr ?d, g')"
  proof (cases zero_variations "5 :: nat" ?g rule: generate_flight_data_cases)
    case (raise g2)
    with up show ?thesis by simp
  next
    case (sample g2 g')
    with up that show ?thesis by simp
  qed
  have "fst (run [Set_flight_parameters 1000 0 0, Generate zero_variations 5]
               (FlightDataGenerator_init 1 0)) = [?d]"
    by (simp add: gen)
  moreover have "\<not> in_envelope_spec ?d"
    using hd by (simp add: in_envelope_spec_def)
  ultimately show ?thesis by simp
qed

section \<open>The bounded history\<close>

lemma push_history_length:
  assumes "int (length h) \<le> cap"
  shows "int (length (push_history cap h d)) \<le> cap"
  using assms by (simp add: push_history_def)

lemma push_history_drop:
  assumes "int (length h) \<le> cap"
  shows "drop (length (push_history cap h d @ rest) - nat cap) (push_history cap h d @ rest) =
         drop (length (h @ d # rest) - nat cap) (h @ d # rest)"
proof (cases "int (length (h @ [d])) > cap")
  case False
  then show ?thesis by (simp add: push_history_def)
next
  case True
  with assms have len: "length h = nat cap" and cap: "0 \<le> cap" by simp_all
  have p: "push_history cap h d = tl (h @ [d])"
    using True by (simp add: push_history_def)
  have t: "tl (h @ [d]) @ rest = tl (h @ d # rest)" by (cases h) simp_all
  have "length (tl (h @ [d]) @ rest) - nat cap = length rest"
    using len by simp
  moreover have "length (h @ d # rest) - nat cap = Suc (length rest)"
    using len by simp
  ultimately show ?thesis
    by (simp only: p t drop_Suc)
qed

text \<open>
  Claim C7. From a generator whose history is no longer than its capacity, as the
  constructor leaves it (one sample, capacity 1000), any sequence of calls leaves the
  capacity as it was and a history no longer than it, and the history is the last
  samples, in order, of the old history followed by the samples produced: the oldest
  are the ones evicted.
\<close>

theorem history_bounded_fifo:
  assumes "int (length (history g)) \<le> max_history g"
  shows "case run cs g of
           (ds, g') \<Rightarrow>
             max_history g' = max_history g \<and>
             int (length (history g')) \<le> max_history g \<and>
             history g' = drop (length (history g @ ds) - nat (max_history g)) (history g @ ds)"
  using assms
proof (induction cs arbitrary: g)
  case Nil
  then show ?case by simp
next
  case (Cons c cs)
  show ?case
  proof (cases c)
    case (Generate u now)
    show ?thesis
    proof (cases u now g rule: generate_flight_data_cases)
      case (raise g1)
      with Cons.IH [of g1] Cons.prems Generate show ?thesis by simp
    next
      case (sample g1 g')
      let ?d = "sample_of (apply_boundaries (add_realistic_variations u g1)) now"
      obtain ds g'' where r: "run cs g' = (ds, g'')" by (cases "run cs g'")
      have inv: "int (length (history g')) \<le> max_history g'"
        using push_history_length [OF Cons.prems] sample(3,4) by simp
      from Cons.IH [OF inv]
      have ih: "max_history g'' = max_history g \<and> int (length (history g'')) \<le> max_history g \<and>
        history g'' = drop (length (history g' @ ds) - nat (max_history g)) (history g' @ ds)"
        unfolding r prod.case sample(4) .
      have eq: "drop (length (history g' @ ds) - nat (max_history g)) (history g' @ ds) =
          drop (length (history g @ ?d # ds) - nat (max_history g)) (history g @ ?d # ds)"
        unfolding sample(3) by (rule push_history_drop [OF Cons.prems])
      from ih have a: "max_history g'' = max_history g"
        and b: "int (length (history g'')) \<le> max_history g"
        and c: "history g'' =
          drop (length (history g' @ ds) - nat (max_history g)) (history g' @ ds)"
        by blast+
      from c eq have c': "history g'' =
          drop (length (history g @ ?d # ds) - nat (max_history g)) (history g @ ?d # ds)"
        by (rule trans)
      from a b c' have concl: "max_history g'' = max_history g \<and>
          int (length (history g'')) \<le> max_history g \<and>
          history g'' =
            drop (length (history g @ ?d # ds) - nat (max_history g)) (history g @ ?d # ds)"
        by (intro conjI)
      have red: "run (c # cs) g = (?d # ds, g'')"
        unfolding Generate run.simps sample(2) by (simp only: prod.case sum.case r)
      show ?thesis unfolding red prod.case by (rule concl)
    qed
  next
    case (Set_flight_parameters h a s)
    with Cons.IH [of "set_flight_parameters h a s g"] Cons.prems show ?thesis
      by (simp add: set_flight_parameters_def)
  next
    case (Reset_position lat lon)
    with Cons.IH [of "reset_position lat lon g"] Cons.prems show ?thesis
      by (simp add: reset_position_def)
  qed
qed

lemma update_position_initial:
  "\<exists>g1. update_position ((FlightDataGenerator_init 1 0)\<lparr>max_history := 1\<rparr>) = (Inr (), g1)"
  by (simp add: update_position_def Let_def FlightDataGenerator_init_def
      cos_radians_270 cos_radians_nonzero)

text \<open>With capacity 1 the sample of one call replaces the initial one.\<close>

theorem history_bounded_fifo_witness:
  "int (length (history ((FlightDataGenerator_init 1 0)\<lparr>max_history := 1\<rparr>)))
     \<le> max_history ((FlightDataGenerator_init 1 0)\<lparr>max_history := 1\<rparr>) \<and>
   (case run [Generate zero_variations 5] ((FlightDataGenerator_init 1 0)\<lparr>max_history := 1\<rparr>) of
      (ds, g') \<Rightarrow> length ds = 1 \<and> history g' = ds \<and> max_history g' = 1)"
proof -
  let ?g = "(FlightDataGenerator_init 1 0)\<lparr>max_history := 1\<rparr>"
  have h: "int (length (history ?g)) \<le> max_history ?g"
    by (simp add: FlightDataGenerator_init_def Let_def)
  from update_position_initial obtain g1 where up: "update_position ?g = (Inr (), g1)" by blast
  obtain d g' where gen: "generate_flight_data zero_variations 5 ?g = (Inr d, g')"
  proof (cases zero_variations "5 :: nat" ?g rule: generate_flight_data_cases)
    case (raise g2)
    with up show ?thesis by simp
  next
    case (sample g2 g')
    with that show ?thesis by simp
  qed
  have r: "run [Generate zero_variations 5] ?g = ([d], g')"
    by (simp add: gen)
  have hg: "history ?g = [\<lparr>latitude = 41.2622, longitude = 28.7278, altitude = 35000,
      airspeed = 450, heading = 270, vertical_speed = 0, timestamp = 0\<rparr>]"
    by (simp add: FlightDataGenerator_init_def Let_def)
  have mg: "max_history ?g = 1" by simp
  from history_bounded_fifo [OF h, of "[Generate zero_variations 5]"]
  have "max_history g' = 1 \<and> history g' = [d]"
    unfolding r prod.case hg mg by simp
  with h r show ?thesis by simp
qed

end
